theory Spec2Isabelle
  imports
    Main
    "HOL-Library.Word"
    "HOL-Library.AList"
    "HOL-Library.Char_ord"
    "HOL-Library.List_Lexorder"
    "HOL-Library.Multiset"
begin

unbundle bit_operations_syntax

section \<open>Strings, arrays and objects of the JavaScript runtime\<close>

text \<open>
  The program is \<^verbatim>\<open>servidor-tuya-express.js\<close>. A JavaScript string is modelled as
  a \<^typ>\<open>string\<close>, read as the UTF-8 bytes of the text; all the strings the program builds
  itself are ASCII. \<^verbatim>\<open>Array.prototype.sort()\<close> without a comparator orders strings by
  code unit, which on these strings is the lexicographic order of \<^typ>\<open>char list\<close>.
\<close>

text \<open>\<^verbatim>\<open>String.prototype.split(d)\<close> for a one-character separator: never an empty array.\<close>

fun split_on :: "char \<Rightarrow> string \<Rightarrow> string list" where
  "split_on d [] = [[]]"
| "split_on d (c # cs) =
     (if c = d then [] # split_on d cs
      else (case split_on d cs of
              [] \<Rightarrow> [[c]]
            | p # ps \<Rightarrow> (c # p) # ps))"

text \<open>\<^verbatim>\<open>Array.prototype.join(sep)\<close>.\<close>

fun join_with :: "string \<Rightarrow> string list \<Rightarrow> string" where
  "join_with sep [] = []"
| "join_with sep [x] = x"
| "join_with sep (x # y # zs) = x @ sep @ join_with sep (y # zs)"

text \<open>\<^verbatim>\<open>String.prototype.indexOf(pat)\<close>; \<open>None\<close> stands for \<open>-1\<close>.\<close>

fun index_of :: "string \<Rightarrow> string \<Rightarrow> nat option" where
  "index_of pat [] = (if pat = [] then Some 0 else None)"
| "index_of pat (c # cs) =
     (if take (length pat) (c # cs) = pat then Some 0
      else map_option Suc (index_of pat cs))"

text \<open>\<^verbatim>\<open>Number.prototype.toString()\<close> on a non-negative integer: its decimal digits.\<close>

definition digit_char :: "nat \<Rightarrow> char" where
  "digit_char n = char_of (48 + n)"

fun show_nat :: "nat \<Rightarrow> string" where
  "show_nat n = (if n < 10 then [digit_char n] else show_nat (n div 10) @ [digit_char (n mod 10)])"

declare show_nat.simps [simp del]

definition is_digit :: "char \<Rightarrow> bool" where
  "is_digit c = (CHR ''0'' \<le> c \<and> c \<le> CHR ''9'')"

definition is_upper :: "char \<Rightarrow> bool" where
  "is_upper c = (CHR ''A'' \<le> c \<and> c \<le> CHR ''Z'')"

definition is_lower :: "char \<Rightarrow> bool" where
  "is_lower c = (CHR ''a'' \<le> c \<and> c \<le> CHR ''z'')"

text \<open>\<^verbatim>\<open>toUpperCase()\<close> and \<^verbatim>\<open>toLowerCase()\<close> on ASCII text.\<close>

definition upper_char :: "char \<Rightarrow> char" where
  "upper_char c = (if is_lower c then char_of (of_char c - (32::nat)) else c)"

definition lower_char :: "char \<Rightarrow> char" where
  "lower_char c = (if is_upper c then char_of (of_char c + (32::nat)) else c)"

definition toUpperCase :: "string \<Rightarrow> string" where
  "toUpperCase s = map upper_char s"

definition toLowerCase :: "string \<Rightarrow> string" where
  "toLowerCase s = map lower_char s"

subsection \<open>Objects\<close>

text \<open>
  An object is its list of own properties in insertion order. Writing a property
  (\<^const>\<open>AList.update\<close>) replaces the value in place when the key exists and appends it
  otherwise. Enumeration (\<^verbatim>\<open>Object.keys\<close>, \<^verbatim>\<open>Object.assign\<close>, \<^verbatim>\<open>JSON.stringify\<close>)
  lists the array-index keys first, in ascending numeric order, then the other keys in
  insertion order.
\<close>

type_synonym 'v obj = "(string \<times> 'v) list"

fun digits_value :: "nat \<Rightarrow> string \<Rightarrow> nat" where
  "digits_value acc [] = acc"
| "digits_value acc (c # cs) = digits_value (10 * acc + (of_char c - 48)) cs"

definition is_array_index :: "string \<Rightarrow> bool" where
  "is_array_index k =
     (k \<noteq> [] \<and> list_all is_digit k \<and> (if hd k = CHR ''0'' then k = ''0'' else True)
      \<and> digits_value 0 k < 4294967295)"

definition own_entries :: "'v obj \<Rightarrow> 'v obj" where
  "own_entries ob =
     sort_key (\<lambda>e. digits_value 0 (fst e)) (filter (\<lambda>e. is_array_index (fst e)) ob)
     @ filter (\<lambda>e. \<not> is_array_index (fst e)) ob"

definition Object_keys :: "'v obj \<Rightarrow> string list" where
  "Object_keys ob = map fst (own_entries ob)"

definition Object_assign :: "'v obj \<Rightarrow> 'v obj \<Rightarrow> 'v obj" where
  "Object_assign target source = fold (\<lambda>e. AList.update (fst e) (snd e)) (own_entries source) target"

section \<open>Percent-encoding and the \<^verbatim>\<open>qs\<close> package\<close>

text \<open>
  \<^verbatim>\<open>qs\<close> and \<^verbatim>\<open>decodeURIComponent\<close> are not part of the repository. They are modelled
  here with the defaults the program uses them with, for query strings whose keys carry no
  bracket notation (\<^verbatim>\<open>a[b]=c\<close>, which \<^verbatim>\<open>qs\<close> turns into nested objects): parameters are
  separated at \<^verbatim>\<open>&\<close>, at most 1000 of them; the first \<^verbatim>\<open>=\<close> separates key and value;
  \<^verbatim>\<open>+\<close> and percent-escapes are decoded; a repeated key collects its values in an
  array; the empty key and the names of \<^verbatim>\<open>Object.prototype\<close> are dropped.
\<close>

definition hex_upper_digit :: "nat \<Rightarrow> char" where
  "hex_upper_digit n = ''0123456789ABCDEF'' ! (n mod 16)"

definition hex_lower_digit :: "nat \<Rightarrow> char" where
  "hex_lower_digit n = ''0123456789abcdef'' ! (n mod 16)"

definition hex_value :: "char \<Rightarrow> nat option" where
  "hex_value c =
     (if is_digit c then Some (of_char c - 48)
      else if CHR ''a'' \<le> c \<and> c \<le> CHR ''f'' then Some (of_char c - 87)
      else if CHR ''A'' \<le> c \<and> c \<le> CHR ''F'' then Some (of_char c - 55)
      else None)"

text \<open>
  \<^verbatim>\<open>decodeURIComponent\<close>; \<open>None\<close> is the \<^verbatim>\<open>URIError\<close> of a malformed escape. An escape
  is decoded to its byte; that the escaped bytes form valid UTF-8 (which the runtime also
  requires) is not examined, so the function is the runtime's on texts whose escapes stand
  for ASCII characters.
\<close>

fun decodeURIComponent :: "string \<Rightarrow> string option" where
  "decodeURIComponent [] = Some []"
| "decodeURIComponent (c # cs) =
     (if c = CHR ''%'' then
        (case cs of
           h # l # rest \<Rightarrow>
             (case (hex_value h, hex_value l) of
                (Some a, Some b) \<Rightarrow> map_option ((#) (char_of (16 * a + b))) (decodeURIComponent rest)
              | _ \<Rightarrow> None)
         | _ \<Rightarrow> None)
      else map_option ((#) c) (decodeURIComponent cs))"

definition unreserved :: "char \<Rightarrow> bool" where
  "unreserved c = (is_digit c \<or> is_upper c \<or> is_lower c \<or> c \<in> set ''-._~'')"

text \<open>\<^verbatim>\<open>utils.encode\<close> of \<^verbatim>\<open>qs\<close> (RFC 3986): every byte outside the unreserved set is escaped.\<close>

definition encode_char :: "char \<Rightarrow> string" where
  "encode_char c =
     (if unreserved c then [c]
      else [CHR ''%'', hex_upper_digit (of_char c div 16), hex_upper_digit (of_char c mod 16)])"

definition qs_encode :: "string \<Rightarrow> string" where
  "qs_encode s = concat (map encode_char s)"

text \<open>\<^verbatim>\<open>utils.decode\<close> of \<^verbatim>\<open>qs\<close>: \<^verbatim>\<open>+\<close> becomes a space; an undecodable text is kept as it is.\<close>

definition qs_decode :: "string \<Rightarrow> string" where
  "qs_decode s =
     (let strWithoutPlus = map (\<lambda>c. if c = CHR ''+'' then CHR '' '' else c) s
      in case decodeURIComponent strWithoutPlus of
           Some d \<Rightarrow> d
         | None \<Rightarrow> strWithoutPlus)"

text \<open>A query value: a string, or the array of strings of a repeated key.\<close>

datatype qval = QStr string | QArr "string list"

fun combine :: "qval \<Rightarrow> string \<Rightarrow> qval" where
  "combine (QStr a) b = QArr [a, b]"
| "combine (QArr xs) b = QArr (xs @ [b])"

definition split_param :: "string \<Rightarrow> string \<times> string" where
  "split_param part =
     (let pos = (case index_of '']='' part of
                   Some i \<Rightarrow> Some (i + 1)
                 | None \<Rightarrow> index_of ''='' part)
      in case pos of
           None \<Rightarrow> (qs_decode part, [])
         | Some p \<Rightarrow> (qs_decode (take p part), qs_decode (drop (p + 1) part)))"

definition add_param :: "string \<Rightarrow> qval obj \<Rightarrow> qval obj" where
  "add_param part ob =
     (let (key, val) = split_param part
      in case map_of ob key of
           Some existing \<Rightarrow> AList.update key (combine existing val) ob
         | None \<Rightarrow> AList.update key (QStr val) ob)"

definition parseValues :: "string \<Rightarrow> qval obj" where
  "parseValues str = fold add_param (take 1000 (split_on CHR ''&'' str)) []"

definition object_prototype_keys :: "string list" where
  "object_prototype_keys =
     [''constructor'', ''__defineGetter__'', ''__defineSetter__'', ''hasOwnProperty'',
      ''__lookupGetter__'', ''__lookupSetter__'', ''isPrototypeOf'', ''propertyIsEnumerable'',
      ''toString'', ''valueOf'', ''__proto__'', ''toLocaleString'']"

definition kept_key :: "string \<Rightarrow> bool" where
  "kept_key k = (k \<noteq> [] \<and> k \<notin> set object_prototype_keys)"

text \<open>\<^verbatim>\<open>qs.parse(str)\<close>; the argument is \<open>None\<close> when it is \<^verbatim>\<open>undefined\<close>.\<close>

definition qs_parse :: "string option \<Rightarrow> qval obj" where
  "qs_parse s =
     (case s of
        None \<Rightarrow> []
      | Some str \<Rightarrow> if str = [] then [] else filter (\<lambda>e. kept_key (fst e)) (parseValues str))"

fun stringify_entry :: "string \<times> qval \<Rightarrow> string list" where
  "stringify_entry (k, QStr v) = [qs_encode k @ ''='' @ qs_encode v]"
| "stringify_entry (k, QArr vs) =
     map (\<lambda>(i, v). qs_encode (k @ ''['' @ show_nat i @ '']'') @ ''='' @ qs_encode v)
         (enumerate 0 vs)"

text \<open>\<^verbatim>\<open>qs.stringify(obj)\<close>: the encoded parameters in enumeration order, joined by \<^verbatim>\<open>&\<close>.\<close>

definition qs_stringify :: "qval obj \<Rightarrow> string" where
  "qs_stringify ob = join_with ''&'' (concat (map stringify_entry (own_entries ob)))"

section \<open>Canonical path of \<^verbatim>\<open>getRequestSign\<close>\<close>

text \<open>The destructuring \<^verbatim>\<open>const [uri, pathQuery] = path.split('?')\<close>.\<close>

definition split_path :: "string \<Rightarrow> string \<times> string option" where
  "split_path path =
     (case split_on CHR ''?'' path of
        [] \<Rightarrow> ([], None)
      | [u] \<Rightarrow> (u, None)
      | u # q # _ \<Rightarrow> (u, Some q))"

definition queryMerged :: "qval obj \<Rightarrow> string \<Rightarrow> qval obj" where
  "queryMerged query path = Object_assign query (qs_parse (snd (split_path path)))"

text \<open>
  \<^verbatim>\<open>Object.keys(queryMerged).sort().forEach((i) => (sortedQuery[i] = queryMerged[i]))\<close>;
  the keys come from the object itself, so the lookup always finds a value.
\<close>

definition sortedQuery :: "qval obj \<Rightarrow> string \<Rightarrow> qval obj" where
  "sortedQuery query path =
     (let qm = queryMerged query path
      in fold (\<lambda>i acc. case map_of qm i of
                          Some v \<Rightarrow> AList.update i v acc
                        | None \<Rightarrow> acc)
              (sort (Object_keys qm)) [])"

definition querystring :: "qval obj \<Rightarrow> string \<Rightarrow> string option" where
  "querystring query path = decodeURIComponent (qs_stringify (sortedQuery query path))"

definition canonical_url :: "qval obj \<Rightarrow> string \<Rightarrow> string option" where
  "canonical_url query path =
     (case querystring query path of
        None \<Rightarrow> None
      | Some q \<Rightarrow> Some (if q \<noteq> [] then fst (split_path path) @ ''?'' @ q else fst (split_path path)))"

section \<open>\<^verbatim>\<open>JSON.stringify\<close>\<close>

text \<open>
  The values the program serializes. Numbers are the integers (the control values of the
  endpoints, on which \<^verbatim>\<open>Math.round\<close> is the identity), meant below \<open>10\<^sup>2\<^sup>1\<close> in absolute
  value, where \<^verbatim>\<open>JSON.stringify\<close> writes all the digits; an object holds its properties in
  enumeration order; \<open>JFun\<close> is a function object, which \<^verbatim>\<open>JSON.stringify\<close> leaves out
  of an object and writes as \<^verbatim>\<open>null\<close> in an array.
\<close>

datatype jsval =
    JNull
  | JBool bool
  | JNum int
  | JStr string
  | JArr "jsval list"
  | JObj "(string \<times> jsval) list"
  | JFun

definition show_int :: "int \<Rightarrow> string" where
  "show_int i = (if i < 0 then CHR ''-'' # show_nat (nat (- i)) else show_nat (nat i))"

definition json_escape :: "char \<Rightarrow> string" where
  "json_escape c =
     (if c = CHR 0x22 then [CHR 0x5C, CHR 0x22]
      else if c = CHR 0x5C then [CHR 0x5C, CHR 0x5C]
      else if c = CHR 0x08 then [CHR 0x5C, CHR ''b'']
      else if c = CHR 0x09 then [CHR 0x5C, CHR ''t'']
      else if c = CHR 0x0A then [CHR 0x5C, CHR ''n'']
      else if c = CHR 0x0C then [CHR 0x5C, CHR ''f'']
      else if c = CHR 0x0D then [CHR 0x5C, CHR ''r'']
      else if (of_char c :: nat) < 32 then
        [CHR 0x5C, CHR ''u'', CHR ''0'', CHR ''0'',
         hex_lower_digit (of_char c div 16), hex_lower_digit (of_char c mod 16)]
      else [c])"

definition json_quote :: "string \<Rightarrow> string" where
  "json_quote s = [CHR 0x22] @ concat (map json_escape s) @ [CHR 0x22]"

text \<open>\<open>None\<close> is the \<^verbatim>\<open>undefined\<close> that \<^verbatim>\<open>JSON.stringify\<close> returns for a function.\<close>

fun JSON_stringify :: "jsval \<Rightarrow> string option"
  and json_elements :: "jsval list \<Rightarrow> string list"
  and json_members :: "(string \<times> jsval) list \<Rightarrow> string list" where
  "JSON_stringify JNull = Some ''null''"
| "JSON_stringify (JBool b) = Some (if b then ''true'' else ''false'')"
| "JSON_stringify (JNum i) = Some (show_int i)"
| "JSON_stringify (JStr s) = Some (json_quote s)"
| "JSON_stringify (JArr xs) = Some (''['' @ join_with '','' (json_elements xs) @ '']'')"
| "JSON_stringify (JObj es) = Some (''{'' @ join_with '','' (json_members es) @ ''}'')"
| "JSON_stringify JFun = None"
| "json_elements [] = []"
| "json_elements (x # xs) =
     (case JSON_stringify x of Some js \<Rightarrow> js | None \<Rightarrow> ''null'') # json_elements xs"
| "json_members [] = []"
| "json_members (e # es) =
     (case JSON_stringify (snd e) of
        Some js \<Rightarrow> [json_quote (fst e) @ '':'' @ js]
      | None \<Rightarrow> [])
     @ json_members es"

section \<open>SHA-256 and HMAC-SHA256 of \<^verbatim>\<open>crypto\<close>\<close>

text \<open>
  \<^verbatim>\<open>crypto.createHash('sha256')\<close> and \<^verbatim>\<open>crypto.createHmac('sha256', key)\<close> of the
  Node.js runtime, as FIPS 180-4 and RFC 2104 define them, on 32-bit words.
\<close>

type_synonym u32 = "32 word"
type_synonym byte = "8 word"

definition rotr :: "nat \<Rightarrow> u32 \<Rightarrow> u32" where
  "rotr n x = drop_bit n x OR push_bit (32 - n) x"

definition Ch :: "u32 \<Rightarrow> u32 \<Rightarrow> u32 \<Rightarrow> u32" where
  "Ch x y z = (x AND y) XOR (NOT x AND z)"

definition Maj :: "u32 \<Rightarrow> u32 \<Rightarrow> u32 \<Rightarrow> u32" where
  "Maj x y z = (x AND y) XOR (x AND z) XOR (y AND z)"

definition bsig0 :: "u32 \<Rightarrow> u32" where
  "bsig0 x = rotr 2 x XOR rotr 13 x XOR rotr 22 x"

definition bsig1 :: "u32 \<Rightarrow> u32" where
  "bsig1 x = rotr 6 x XOR rotr 11 x XOR rotr 25 x"

definition ssig0 :: "u32 \<Rightarrow> u32" where
  "ssig0 x = rotr 7 x XOR rotr 18 x XOR drop_bit 3 x"

definition ssig1 :: "u32 \<Rightarrow> u32" where
  "ssig1 x = rotr 17 x XOR rotr 19 x XOR drop_bit 10 x"

definition K256 :: "u32 list" where
  "K256 =
    [0x428A2F98, 0x71374491, 0xB5C0FBCF, 0xE9B5DBA5, 0x3956C25B, 0x59F111F1, 0x923F82A4, 0xAB1C5ED5,
     0xD807AA98, 0x12835B01, 0x243185BE, 0x550C7DC3, 0x72BE5D74, 0x80DEB1FE, 0x9BDC06A7, 0xC19BF174,
     0xE49B69C1, 0xEFBE4786, 0x0FC19DC6, 0x240CA1CC, 0x2DE92C6F, 0x4A7484AA, 0x5CB0A9DC, 0x76F988DA,
     0x983E5152, 0xA831C66D, 0xB00327C8, 0xBF597FC7, 0xC6E00BF3, 0xD5A79147, 0x06CA6351, 0x14292967,
     0x27B70A85, 0x2E1B2138, 0x4D2C6DFC, 0x53380D13, 0x650A7354, 0x766A0ABB, 0x81C2C92E, 0x92722C85,
     0xA2BFE8A1, 0xA81A664B, 0xC24B8B70, 0xC76C51A3, 0xD192E819, 0xD6990624, 0xF40E3585, 0x106AA070,
     0x19A4C116, 0x1E376C08, 0x2748774C, 0x34B0BCB5, 0x391C0CB3, 0x4ED8AA4A, 0x5B9CCA4F, 0x682E6FF3,
     0x748F82EE, 0x78A5636F, 0x84C87814, 0x8CC70208, 0x90BEFFFA, 0xA4506CEB, 0xBEF9A3F7, 0xC67178F2]"

definition H0 :: "u32 list" where
  "H0 = [0x6A09E667, 0xBB67AE85, 0x3C6EF372, 0xA54FF53A,
         0x510E527F, 0x9B05688C, 0x1F83D9AB, 0x5BE0CD19]"

text \<open>The message schedule is kept newest word first: \<open>W\<^sub>t\<close> from \<open>W\<^sub>t\<^sub>-\<^sub>2\<close>, \<open>W\<^sub>t\<^sub>-\<^sub>7\<close>, \<open>W\<^sub>t\<^sub>-\<^sub>1\<^sub>5\<close>, \<open>W\<^sub>t\<^sub>-\<^sub>1\<^sub>6\<close>.\<close>

fun next_word :: "u32 list \<Rightarrow> u32" where
  "next_word (_ # w2 # _ # _ # _ # _ # w7 # _ # _ # _ # _ # _ # _ # _ # w15 # w16 # _) =
     ssig1 w2 + w7 + ssig0 w15 + w16"
| "next_word _ = 0"

fun schedule :: "nat \<Rightarrow> u32 list \<Rightarrow> u32 list" where
  "schedule 0 ws = ws"
| "schedule (Suc n) ws = schedule n (next_word ws # ws)"

fun rounds :: "u32 list \<Rightarrow> u32 list \<Rightarrow> u32 list \<Rightarrow> u32 list" where
  "rounds (k # ks) (w # ws) [a, b, c, d, e, f, g, h] =
     (let t1 = h + bsig1 e + Ch e f g + k + w;
          t2 = bsig0 a + Maj a b c
      in rounds ks ws [t1 + t2, a, b, c, d + t1, e, f, g])"
| "rounds _ _ st = st"

definition be32 :: "byte list \<Rightarrow> u32" where
  "be32 bs = foldl (\<lambda>acc b. push_bit 8 acc OR ucast b) 0 bs"

fun chunks :: "nat \<Rightarrow> nat \<Rightarrow> 'a list \<Rightarrow> 'a list list" where
  "chunks 0 n xs = []"
| "chunks (Suc k) n xs = take n xs # chunks k n (drop n xs)"

definition compress :: "u32 list \<Rightarrow> byte list \<Rightarrow> u32 list" where
  "compress hs blk =
     (let ws = rev (schedule 48 (rev (map be32 (chunks 16 4 blk))))
      in map2 (+) hs (rounds K256 ws hs))"

definition pad :: "byte list \<Rightarrow> byte list" where
  "pad m =
     m @ [0x80] @ replicate ((119 - length m mod 64) mod 64) 0
       @ map (\<lambda>i. ucast (drop_bit (8 * (7 - i)) (of_nat (8 * length m) :: 64 word))) [0..<8]"

definition word_bytes :: "u32 \<Rightarrow> byte list" where
  "word_bytes w = map (\<lambda>i. ucast (drop_bit (8 * (3 - i)) w)) [0..<4]"

definition sha256 :: "byte list \<Rightarrow> byte list" where
  "sha256 m =
     concat (map word_bytes (foldl compress H0 (chunks (length (pad m) div 64) 64 (pad m))))"

definition hmac_sha256 :: "byte list \<Rightarrow> byte list \<Rightarrow> byte list" where
  "hmac_sha256 key m =
     (let k0 = (if length key > 64 then sha256 key else key);
          k = k0 @ replicate (64 - length k0) 0
      in sha256 (map (\<lambda>b. b XOR 0x5c) k @ sha256 (map (\<lambda>b. b XOR 0x36) k @ m)))"

text \<open>\<^verbatim>\<open>update(str, 'utf8')\<close> feeds the bytes of the text; \<^verbatim>\<open>digest('hex')\<close> is lowercase.\<close>

definition bytes_of :: "string \<Rightarrow> byte list" where
  "bytes_of s = map of_char s"

definition hex_lower :: "byte list \<Rightarrow> string" where
  "hex_lower bs = concat (map (\<lambda>b. [hex_lower_digit (unat b div 16), hex_lower_digit (unat b mod 16)]) bs)"

definition sha256_hex :: "string \<Rightarrow> string" where
  "sha256_hex s = hex_lower (sha256 (bytes_of s))"

definition hmac_sha256_hex :: "string \<Rightarrow> string \<Rightarrow> string" where
  "hmac_sha256_hex secret s = hex_lower (hmac_sha256 (bytes_of secret) (bytes_of s))"

section \<open>The program state and its surroundings\<close>

text \<open>
  \<^verbatim>\<open>config\<close> is read from the environment once; \<^verbatim>\<open>validateConfig\<close> ends the process
  before any call when a key is missing, so the keys are strings.
\<close>

record config =
  host :: string
  accessKey :: string
  secretKey :: string
  deviceId :: string

text \<open>A call through \<^verbatim>\<open>httpClient\<close>: method, URL, headers and the JSON body when one is sent.\<close>

record request =
  req_method :: string
  req_url :: string
  req_headers :: "(string \<times> string) list"
  req_data :: "jsval option"

text \<open>
  The response envelope \<^verbatim>\<open>{success, result, msg}\<close>. Of \<^verbatim>\<open>result\<close> the program reads
  only \<^verbatim>\<open>access_token\<close>, a string; \<^verbatim>\<open>result\<close> and \<^verbatim>\<open>msg\<close> may be missing.
\<close>

record api_result =
  access_token :: string

record envelope =
  success :: bool
  result :: "api_result option"
  msg :: "string option"

text \<open>
  What \<^verbatim>\<open>axios\<close> gives back: it throws (no connection, timeout after 10 seconds, a
  status outside 2xx) or resolves with the parsed \<^verbatim>\<open>data\<close>, which may be empty.
\<close>

datatype http_result = NetworkError string | Response "envelope option"

text \<open>
  The exceptions of the program: \<^verbatim>\<open>new Error(message)\<close>, the client's error with its
  message, the \<^verbatim>\<open>TypeError\<close> of reading a property of \<^verbatim>\<open>null\<close> or \<^verbatim>\<open>undefined\<close> (or of
  hashing \<^verbatim>\<open>undefined\<close>), and the \<^verbatim>\<open>URIError\<close> of \<^verbatim>\<open>decodeURIComponent\<close>.
\<close>

datatype error = Error string | AxiosError string | TypeError | URIError

text \<open>
  The surroundings of a run: the configuration, the clock (\<open>now e k\<close> is the value of the
  \<open>k\<close>-th reading of \<^verbatim>\<open>Date.now()\<close>) and the cloud (\<open>server e k r\<close> answers the request
  \<open>r\<close> sent after \<open>k\<close> earlier ones). The state: the module variable \<^verbatim>\<open>token\<close>, the
  number of clock readings so far and the requests sent so far. Each operation runs from
  its start to its end; logging to the console is left out.
\<close>

record env =
  cfg :: config
  now :: "nat \<Rightarrow> nat"
  server :: "nat \<Rightarrow> request \<Rightarrow> http_result"

record state =
  token :: string
  ticks :: nat
  sent :: "request list"

definition Date_now :: "env \<Rightarrow> state \<Rightarrow> string \<times> state" where
  "Date_now e s = (show_nat (now e (ticks s)), s\<lparr>ticks := ticks s + 1\<rparr>)"

definition http_call :: "env \<Rightarrow> state \<Rightarrow> request \<Rightarrow> http_result \<times> state" where
  "http_call e s r = (server e (length (sent s)) r, s\<lparr>sent := sent s @ [r]\<rparr>)"

definition or_undefined :: "string option \<Rightarrow> string" where
  "or_undefined m = (case m of Some x \<Rightarrow> x | None \<Rightarrow> ''undefined'')"

section \<open>The signer and the session\<close>

definition encryptStr :: "string \<Rightarrow> string \<Rightarrow> string" where
  "encryptStr str secret = toUpperCase (hmac_sha256_hex secret str)"

definition getToken :: "env \<Rightarrow> state \<Rightarrow> (error + string) \<times> state" where
  "getToken e s =
     (let method = ''GET'';
          (timestamp, s1) = Date_now e s;
          signUrl = ''/v1.0/token?grant_type=1'';
          contentHash = sha256_hex [];
          stringToSign = join_with [CHR 0x0A] [method, contentHash, [], signUrl];
          signStr = accessKey (cfg e) @ timestamp @ stringToSign;
          headers = [(''t'', timestamp),
                     (''sign_method'', ''HMAC-SHA256''),
                     (''client_id'', accessKey (cfg e)),
                     (''sign'', encryptStr signStr (secretKey (cfg e)))];
          (res, s2) = http_call e s1
            \<lparr>req_method = ''GET'', req_url = ''/v1.0/token?grant_type=1'',
             req_headers = headers, req_data = None\<rparr>
      in case res of
           NetworkError m \<Rightarrow> (Inl (AxiosError m), s2)
         | Response None \<Rightarrow> (Inl TypeError, s2)
         | Response (Some login) \<Rightarrow>
             if \<not> success login then (Inl (Error (''fetch failed: '' @ or_undefined (msg login))), s2)
             else (case result login of
                     None \<Rightarrow> (Inl TypeError, s2)
                   | Some r \<Rightarrow> (Inr (access_token r), s2\<lparr>token := access_token r\<rparr>)))"

text \<open>The object \<^verbatim>\<open>getRequestSign\<close> returns.\<close>

record sign_headers =
  h_t :: string
  h_path :: string
  h_client_id :: string
  h_sign :: string
  h_sign_method :: string
  h_access_token :: string

definition header_list :: "sign_headers \<Rightarrow> (string \<times> string) list" where
  "header_list h =
     [(''t'', h_t h), (''path'', h_path h), (''client_id'', h_client_id h),
      (''sign'', h_sign h), (''sign_method'', h_sign_method h),
      (''access_token'', h_access_token h)]"

text \<open>
  \<^verbatim>\<open>getRequestSign(path, method, headers, query, body)\<close>. \<^verbatim>\<open>Object.assign\<close> writes into the
  caller's \<^verbatim>\<open>query\<close> object, so the object as the caller sees it afterwards is returned
  too (second component).
\<close>

definition getRequestSign ::
  "env \<Rightarrow> state \<Rightarrow> string \<Rightarrow> string \<Rightarrow> (string \<times> string) list \<Rightarrow> qval obj \<Rightarrow> jsval
     \<Rightarrow> (error + sign_headers) \<times> qval obj \<times> state" where
  "getRequestSign e s path method headers query body =
     (let (t, s1) = Date_now e s;
          query' = queryMerged query path
      in case canonical_url query path of
           None \<Rightarrow> (Inl URIError, query', s1)
         | Some url \<Rightarrow>
             (case JSON_stringify body of
                None \<Rightarrow> (Inl TypeError, query', s1)
              | Some js \<Rightarrow>
                  (let contentHash = sha256_hex js;
                       stringToSign = join_with [CHR 0x0A] [method, contentHash, [], url];
                       signStr = accessKey (cfg e) @ token s1 @ t @ stringToSign
                   in (Inr \<lparr>h_t = t, h_path = url, h_client_id = accessKey (cfg e),
                            h_sign = encryptStr signStr (secretKey (cfg e)),
                            h_sign_method = ''HMAC-SHA256'', h_access_token = token s1\<rparr>,
                       query', s1))))"

section \<open>The device gateway\<close>

definition check_envelope :: "http_result \<Rightarrow> error + envelope" where
  "check_envelope res =
     (case res of
        NetworkError m \<Rightarrow> Inl (AxiosError m)
      | Response None \<Rightarrow> Inl TypeError
      | Response (Some d) \<Rightarrow>
          if \<not> success d then Inl (Error (''request api failed: '' @ or_undefined (msg d)))
          else Inr d)"

definition ensure_token :: "env \<Rightarrow> state \<Rightarrow> (error + unit) \<times> state" where
  "ensure_token e s =
     (if token s = [] then
        (case getToken e s of
           (Inl err, s1) \<Rightarrow> (Inl err, s1)
         | (Inr _, s1) \<Rightarrow> (Inr (), s1))
      else (Inr (), s))"

definition controlDevice :: "env \<Rightarrow> state \<Rightarrow> string \<Rightarrow> string \<Rightarrow> jsval \<Rightarrow> (error + envelope) \<times> state" where
  "controlDevice e s device command val =
     (case ensure_token e s of
        (Inl err, s1) \<Rightarrow> (Inl err, s1)
      | (Inr _, s1) \<Rightarrow>
          (let body = JObj [(''commands'', JArr [JObj [(''code'', JStr command), (''value'', val)]])];
               method = ''POST'';
               url = ''/v1.0/devices/'' @ device @ ''/commands''
           in case getRequestSign e s1 url method [] [] body of
                (Inl err, _, s2) \<Rightarrow> (Inl err, s2)
              | (Inr reqHeaders, _, s2) \<Rightarrow>
                  (let (res, s3) = http_call e s2
                         \<lparr>req_method = method, req_url = h_path reqHeaders,
                          req_headers = header_list reqHeaders, req_data = Some body\<rparr>
                   in (check_envelope res, s3))))"

definition getDeviceInfo :: "env \<Rightarrow> state \<Rightarrow> string \<Rightarrow> (error + envelope) \<times> state" where
  "getDeviceInfo e s device =
     (case ensure_token e s of
        (Inl err, s1) \<Rightarrow> (Inl err, s1)
      | (Inr _, s1) \<Rightarrow>
          (let method = ''GET'';
               url = ''/v1.0/devices/'' @ device
           in case getRequestSign e s1 url method [] [] (JObj []) of
                (Inl err, _, s2) \<Rightarrow> (Inl err, s2)
              | (Inr reqHeaders, _, s2) \<Rightarrow>
                  (let (res, s3) = http_call e s2
                         \<lparr>req_method = method, req_url = h_path reqHeaders,
                          req_headers = header_list reqHeaders, req_data = None\<rparr>
                   in (check_envelope res, s3))))"

section \<open>The endpoints\<close>

text \<open>
  What an endpoint answers: the HTTP status, the \<^verbatim>\<open>success\<close> flag, the upstream envelope
  on success and the error on failure. The message texts and the echoed input are left out.
  A field of the request body is \<open>None\<close> when it is \<^verbatim>\<open>undefined\<close>; the numeric fields
  are integers.
\<close>

record reply =
  status :: nat
  r_success :: bool
  r_data :: "envelope option"
  r_error :: "error option"

definition bad_request :: reply where
  "bad_request = \<lparr>status = 400, r_success = False, r_data = None, r_error = None\<rparr>"

definition respond :: "(error + envelope) \<times> state \<Rightarrow> reply \<times> state" where
  "respond r =
     (case r of
        (Inr d, s) \<Rightarrow> (\<lparr>status = 200, r_success = True, r_data = Some d, r_error = None\<rparr>, s)
      | (Inl err, s) \<Rightarrow> (\<lparr>status = 500, r_success = False, r_data = None, r_error = Some err\<rparr>, s))"

definition Math_round :: "int \<Rightarrow> int" where
  "Math_round x = x"

definition post_device_brightness :: "env \<Rightarrow> state \<Rightarrow> int option \<Rightarrow> reply \<times> state" where
  "post_device_brightness e s brightness =
     (case brightness of
        None \<Rightarrow> (bad_request, s)
      | Some b \<Rightarrow>
          if b < 10 \<or> b > 1000 then (bad_request, s)
          else respond (controlDevice e s (deviceId (cfg e)) ''bright_value_v2'' (JNum (Math_round b))))"

definition post_device_color_hsv ::
  "env \<Rightarrow> state \<Rightarrow> int option \<Rightarrow> int option \<Rightarrow> int option \<Rightarrow> reply \<times> state" where
  "post_device_color_hsv e s h' s' v' =
     (case (h', s', v') of
        (Some h, Some sa, Some v) \<Rightarrow>
          if h < 0 \<or> h > 360 \<or> sa < 0 \<or> sa > 1000 \<or> v < 0 \<or> v > 1000 then (bad_request, s)
          else respond (controlDevice e s (deviceId (cfg e)) ''colour_data_v2''
                 (JObj [(''h'', JNum (Math_round h)), (''s'', JNum (Math_round sa)),
                        (''v'', JNum (Math_round v))]))
      | _ \<Rightarrow> (bad_request, s))"

definition hsv :: "int \<Rightarrow> int \<Rightarrow> int \<Rightarrow> jsval" where
  "hsv h sa v = JObj [(''h'', JNum h), (''s'', JNum sa), (''v'', JNum v)]"

text \<open>
  \<^verbatim>\<open>presetColors[name]\<close>. Besides the nine colours the lookup finds what the object
  inherits: of the lowercase names, \<^verbatim>\<open>constructor\<close> (a function) and \<^verbatim>\<open>__proto__\<close> (an
  object without own enumerable properties).
\<close>

definition presetColors :: "string \<Rightarrow> jsval option" where
  "presetColors name =
     (if name = ''red'' then Some (hsv 0 1000 1000)
      else if name = ''green'' then Some (hsv 120 1000 1000)
      else if name = ''blue'' then Some (hsv 240 1000 1000)
      else if name = ''yellow'' then Some (hsv 60 1000 1000)
      else if name = ''purple'' then Some (hsv 300 1000 1000)
      else if name = ''cyan'' then Some (hsv 180 1000 1000)
      else if name = ''orange'' then Some (hsv 30 1000 1000)
      else if name = ''pink'' then Some (hsv 330 700 1000)
      else if name = ''white'' then Some (hsv 0 0 1000)
      else if name = ''constructor'' then Some JFun
      else if name = ''__proto__'' then Some (JObj [])
      else None)"

definition post_device_color_preset :: "env \<Rightarrow> state \<Rightarrow> string option \<Rightarrow> reply \<times> state" where
  "post_device_color_preset e s color =
     (case color of
        None \<Rightarrow> (bad_request, s)
      | Some c \<Rightarrow>
          if c = [] then (bad_request, s)
          else (case presetColors (toLowerCase c) of
                  None \<Rightarrow> (bad_request, s)
                | Some colorData \<Rightarrow>
                    respond (controlDevice e s (deviceId (cfg e)) ''colour_data_v2'' colorData)))"

text \<open>\<^verbatim>\<open>POST /token/refresh\<close> and the two-hourly timer: both call \<^verbatim>\<open>getToken\<close>.\<close>

definition post_token_refresh :: "env \<Rightarrow> state \<Rightarrow> reply \<times> state" where
  "post_token_refresh e s =
     (case getToken e s of
        (Inr _, s1) \<Rightarrow> (\<lparr>status = 200, r_success = True, r_data = None, r_error = None\<rparr>, s1)
      | (Inl err, s1) \<Rightarrow> (\<lparr>status = 500, r_success = False, r_data = None, r_error = Some err\<rparr>, s1))"

definition timer_refresh :: "env \<Rightarrow> state \<Rightarrow> state" where
  "timer_refresh e s = snd (getToken e s)"

section \<open>Reference notions for the statements\<close>

text \<open>
  The serialization of a query object without any escaping: what the canonical query is
  once \<^verbatim>\<open>decodeURIComponent\<close> has undone the escapes of \<^verbatim>\<open>qs.stringify\<close>.
\<close>

definition enc_item :: "string \<times> string \<Rightarrow> string" where
  "enc_item kv = qs_encode (fst kv) @ ''='' @ qs_encode (snd kv)"

definition raw_item :: "string \<times> string \<Rightarrow> string" where
  "raw_item kv = fst kv @ ''='' @ snd kv"

fun raw_entry :: "string \<times> qval \<Rightarrow> string list" where
  "raw_entry (k, QStr v) = [k @ ''='' @ v]"
| "raw_entry (k, QArr vs) =
     map (\<lambda>(i, v). (k @ ''['' @ show_nat i @ '']'') @ ''='' @ v) (enumerate 0 vs)"

definition raw_query :: "qval obj \<Rightarrow> string" where
  "raw_query ob = join_with ''&'' (concat (map raw_entry (own_entries ob)))"

text \<open>The property that \<^verbatim>\<open>qs.parse\<close> makes of one parameter whose key occurs once.\<close>

definition param_entry :: "string \<Rightarrow> string \<times> qval" where
  "param_entry part = (fst (split_param part), QStr (snd (split_param part)))"

text \<open>
  Where the model of \<^verbatim>\<open>qs.parse\<close> is the library: a query string is plain when it is ASCII,
  has no bracket, and each of its well-formed percent-escapes stands for an ASCII character
  other than a bracket. The statements about what is parsed from a path are made for
  paths whose query string (the text between the first and the second \<^verbatim>\<open>?\<close>) is plain.
\<close>

definition is_ascii :: "char \<Rightarrow> bool" where
  "is_ascii c = ((of_char c :: nat) < 128)"

fun ascii_escapes :: "string \<Rightarrow> bool" where
  "ascii_escapes [] = True"
| "ascii_escapes (c # cs) =
     ((if c = CHR ''%'' then
         (case cs of
            h # l # _ \<Rightarrow>
              (case (hex_value h, hex_value l) of
                 (Some a, Some b) \<Rightarrow> 16 * a + b < 128 \<and> 16 * a + b \<noteq> 91 \<and> 16 * a + b \<noteq> 93
               | _ \<Rightarrow> True)
          | _ \<Rightarrow> True)
       else True)
      \<and> ascii_escapes cs)"

definition plain_query :: "string \<Rightarrow> bool" where
  "plain_query q =
     (list_all is_ascii q \<and> CHR ''['' \<notin> set q \<and> CHR '']'' \<notin> set q \<and> ascii_escapes q)"

definition plain_path :: "string \<Rightarrow> bool" where
  "plain_path path = (case snd (split_path path) of None \<Rightarrow> True | Some q \<Rightarrow> plain_query q)"

text \<open>Uppercase hexadecimal encoding of bytes, written directly.\<close>

definition hex_upper :: "byte list \<Rightarrow> string" where
  "hex_upper bs =
     concat (map (\<lambda>b. [hex_upper_digit (unat b div 16), hex_upper_digit (unat b mod 16)]) bs)"

text \<open>Concrete surroundings for the examples: a cloud that grants a token, and one that is unreachable.\<close>

definition demo_env :: env where
  "demo_env =
     \<lparr>cfg = \<lparr>host = ''https://openapi.tuyaus.com'', accessKey = ''ak'', secretKey = ''sk'',
             deviceId = ''dev1''\<rparr>,
      now = (\<lambda>k. 1700000000000 + k),
      server = (\<lambda>k r. Response (Some \<lparr>success = True,
                                        result = Some \<lparr>access_token = ''fresh''\<rparr>,
                                        msg = None\<rparr>))\<rparr>"

definition down_env :: env where
  "down_env = demo_env\<lparr>server := (\<lambda>k r. NetworkError ''timeout of 10000ms exceeded'')\<rparr>"

definition demo_state :: state where
  "demo_state = \<lparr>token = ''held'', ticks = 0, sent = []\<rparr>"

text \<open>
  The HMAC of the example requests, block by block: the key \<^verbatim>\<open>sk\<close> padded and masked,
  the signed message for a canonical path (access key \<^verbatim>\<open>ak\<close>, token \<^verbatim>\<open>held\<close>, timestamp
  1700000000000, method GET and the hash of \<^verbatim>\<open>{}\<close>), and the chaining values of SHA-256
  after each block of the inner and of the outer hash.
\<close>

definition ex_ipad :: "byte list" where
  "ex_ipad = map (\<lambda>b. b XOR 0x36) (bytes_of ''sk'' @ replicate (64 - length (bytes_of ''sk'')) 0)"

definition ex_opad :: "byte list" where
  "ex_opad = map (\<lambda>b. b XOR 0x5c) (bytes_of ''sk'' @ replicate (64 - length (bytes_of ''sk'')) 0)"

definition ex_msg :: "string \<Rightarrow> byte list" where
  "ex_msg url = bytes_of (''ak'' @ ''held'' @ ''1700000000000'' @ ''GET'' @ [CHR 0x0A]
      @ ''44136fa355b3678a1146ad16f7e8649e94fb4fc21fe77e8310c060f61caaff8a''
      @ [CHR 0x0A] @ [] @ [CHR 0x0A] @ url)"

definition ex_inner1 :: "u32 list" where
  "ex_inner1 = compress H0 ex_ipad"

definition ex_inner2 :: "u32 list" where
  "ex_inner2 = compress ex_inner1 (take 64 (ex_msg ''/x?''))"

definition ex_inner3 :: "string \<Rightarrow> u32 list" where
  "ex_inner3 url = compress ex_inner2 (drop 128 (pad (ex_ipad @ ex_msg url)))"

definition ex_inner3_12 :: "u32 list" where
  "ex_inner3_12 = ex_inner3 ''/x?a[0]=1&a[1]=2''"

definition ex_inner3_21 :: "u32 list" where
  "ex_inner3_21 = ex_inner3 ''/x?a[0]=2&a[1]=1''"

definition ex_outer1 :: "u32 list" where
  "ex_outer1 = compress H0 ex_opad"

definition ex_outer2_12 :: "u32 list" where
  "ex_outer2_12 = compress ex_outer1 (drop 64 (pad (ex_opad @ concat (map word_bytes ex_inner3_12))))"

definition ex_outer2_21 :: "u32 list" where
  "ex_outer2_21 = compress ex_outer1 (drop 64 (pad (ex_opad @ concat (map word_bytes ex_inner3_21))))"

section \<open>Facts about the runtime functions\<close>

lemma hex_value_upper: "\<forall>k \<in> set [0..<16]. hex_value (hex_upper_digit k) = Some k"
  by code_simp

lemma upper_hex_digit: "\<forall>n \<in> set [0..<16]. upper_char (hex_lower_digit n) = hex_upper_digit n"
  by code_simp

lemma percent_not_unreserved: "\<not> unreserved CHR ''%''"
  by (simp add: unreserved_def is_digit_def is_upper_def is_lower_def)

lemma decode_encode_char:
  "decodeURIComponent (encode_char c @ rest) = map_option ((#) c) (decodeURIComponent rest)"
proof (cases "unreserved c")
  case True
  then have "c \<noteq> CHR ''%''" using percent_not_unreserved by auto
  with True show ?thesis by (simp add: encode_char_def)
next
  case False
  have lt: "(of_char c :: nat) div 16 < 16" "(of_char c :: nat) mod 16 < 16"
    using nat_of_char_less_256 [of c] by (simp_all add: less_mult_imp_div_less)
  have "char_of (16 * ((of_char c :: nat) div 16) + (of_char c :: nat) mod 16) = c"
    by simp
  with False lt show ?thesis
    using hex_value_upper by (simp add: encode_char_def)
qed

lemma decode_qs_encode:
  "decodeURIComponent (qs_encode s @ rest) = map_option ((@) s) (decodeURIComponent rest)"
proof (induction s)
  case Nil
  show ?case by (simp add: qs_encode_def option.map_ident)
next
  case (Cons c s)
  have "qs_encode (c # s) @ rest = encode_char c @ (qs_encode s @ rest)"
    by (simp add: qs_encode_def)
  then show ?case
    using Cons by (simp add: decode_encode_char option.map_comp comp_def)
qed

lemma decode_enc_item:
  "decodeURIComponent (enc_item kv @ rest) = map_option ((@) (raw_item kv)) (decodeURIComponent rest)"
  by (cases "decodeURIComponent rest") (simp_all add: enc_item_def raw_item_def decode_qs_encode)

lemma decode_join_items:
  "decodeURIComponent (join_with ''&'' (map enc_item xs)) = Some (join_with ''&'' (map raw_item xs))"
proof (induction xs rule: induct_list012)
  case 1
  show ?case by simp
next
  case (2 x)
  show ?case using decode_enc_item [of x "[]"] by simp
next
  case (3 x y zs)
  have "join_with ''&'' (map enc_item (x # y # zs))
      = enc_item x @ (CHR ''&'' # join_with ''&'' (map enc_item (y # zs)))"
    by simp
  then show ?case using 3 by (simp add: decode_enc_item)
qed

lemma stringify_entry_items:
  "\<exists>xs. stringify_entry e = map enc_item xs \<and> raw_entry e = map raw_item xs"
proof (cases e)
  case (Pair k v)
  show ?thesis
  proof (cases v)
    case (QStr x)
    with Pair show ?thesis
      by (intro exI [of _ "[(k, x)]"]) (simp add: enc_item_def raw_item_def)
  next
    case (QArr vs)
    with Pair show ?thesis
      by (intro exI [of _ "map (\<lambda>(i, v). (k @ ''['' @ show_nat i @ '']'', v)) (enumerate 0 vs)"])
         (simp add: enc_item_def raw_item_def comp_def case_prod_unfold)
  qed
qed

lemma stringify_entries_items:
  "\<exists>xs. concat (map stringify_entry es) = map enc_item xs
      \<and> concat (map raw_entry es) = map raw_item xs"
proof (induction es)
  case Nil
  show ?case by (intro exI [of _ "[]"]) simp
next
  case (Cons e es)
  from Cons obtain xs where xs: "concat (map stringify_entry es) = map enc_item xs"
    "concat (map raw_entry es) = map raw_item xs" by blast
  from stringify_entry_items [of e] obtain ys where ys: "stringify_entry e = map enc_item ys"
    "raw_entry e = map raw_item ys" by blast
  show ?case by (intro exI [of _ "ys @ xs"]) (simp add: xs ys)
qed

text \<open>The escapes that \<^verbatim>\<open>qs.stringify\<close> writes always decode: the signer cannot fail here.\<close>

lemma decode_qs_stringify: "decodeURIComponent (qs_stringify ob) = Some (raw_query ob)"
proof -
  from stringify_entries_items [of "own_entries ob"] obtain xs where
    "concat (map stringify_entry (own_entries ob)) = map enc_item xs"
    "concat (map raw_entry (own_entries ob)) = map raw_item xs" by blast
  then show ?thesis by (simp add: qs_stringify_def raw_query_def decode_join_items)
qed

lemma canonical_url_eq:
  "canonical_url query path =
     Some (if raw_query (sortedQuery query path) \<noteq> []
           then fst (split_path path) @ ''?'' @ raw_query (sortedQuery query path)
           else fst (split_path path))"
  by (simp add: canonical_url_def querystring_def decode_qs_stringify)

lemma hex_digit_mod:
  "hex_lower_digit (n mod 16) = hex_lower_digit n" "hex_upper_digit (n mod 16) = hex_upper_digit n"
  by (simp_all only: hex_lower_digit_def hex_upper_digit_def mod_mod_trivial)

lemma upper_hex_digit_any: "upper_char (hex_lower_digit n) = hex_upper_digit n"
proof -
  have "n mod 16 \<in> set [0..<16]" by simp
  then have "upper_char (hex_lower_digit (n mod 16)) = hex_upper_digit (n mod 16)"
    using upper_hex_digit by blast
  then show ?thesis by (simp only: hex_digit_mod)
qed

lemma toUpperCase_hex_lower: "toUpperCase (hex_lower bs) = hex_upper bs"
  by (induction bs) (simp_all add: toUpperCase_def hex_lower_def hex_upper_def upper_hex_digit_any)

subsection \<open>Objects\<close>

lemma mset_own_entries: "mset (own_entries ob) = mset ob"
  by (simp add: own_entries_def)

lemma set_own_entries: "set (own_entries ob) = set ob"
  using mset_own_entries [of ob] by (metis set_mset_mset)

lemma distinct_own_entries: "distinct (map fst (own_entries ob)) = distinct (map fst ob)"
proof -
  have "mset (map fst (own_entries ob)) = mset (map fst ob)"
    using mset_own_entries [of ob] by (metis mset_map)
  then show ?thesis by (rule mset_eq_imp_distinct_iff)
qed

lemma map_of_own_entries:
  assumes "distinct (map fst ob)"
  shows "map_of (own_entries ob) = map_of ob"
  using assms
  by (intro map_of_inject_set [THEN iffD2]) (simp_all add: distinct_own_entries set_own_entries)

lemma map_of_fold_update:
  "map_of (fold (\<lambda>e. AList.update (fst e) (snd e)) es t) = map_of t ++ map_of (rev es)"
proof (induction es arbitrary: t)
  case Nil
  show ?case by simp
next
  case (Cons e es)
  show ?case
    by (cases e)
       (simp add: Cons update_conv' map_add_upd_left fun_eq_iff map_add_def split: option.splits)
qed

lemma map_of_Object_assign:
  assumes "distinct (map fst source)"
  shows "map_of (Object_assign target source) = map_of target ++ map_of source"
proof -
  have "distinct (map fst (own_entries source))"
    using assms by (simp add: distinct_own_entries)
  then have "map_of (rev (own_entries source)) = map_of (own_entries source)"
    by (intro map_of_inject_set [THEN iffD2]) (simp_all add: rev_map [symmetric])
  then show ?thesis
    using assms by (simp add: Object_assign_def map_of_fold_update map_of_own_entries)
qed







subsection \<open>The keys that are parsed\<close>








subsection \<open>The operations and the state\<close>

lemma getToken_ticks: "ticks (snd (getToken e s)) = ticks s + 1"
  by (simp add: getToken_def Date_now_def http_call_def Let_def
      split: http_result.splits option.splits)

lemma getToken_sent:
  "sent (snd (getToken e s)) = sent s @
     [\<lparr>req_method = ''GET'', req_url = ''/v1.0/token?grant_type=1'',
       req_headers =
         [(''t'', show_nat (now e (ticks s))),
          (''sign_method'', ''HMAC-SHA256''),
          (''client_id'', accessKey (cfg e)),
          (''sign'', encryptStr (accessKey (cfg e) @ show_nat (now e (ticks s))
              @ join_with [CHR 0x0A] [''GET'', sha256_hex [], [], ''/v1.0/token?grant_type=1''])
              (secretKey (cfg e)))],
       req_data = None\<rparr>]"
  by (simp add: getToken_def Date_now_def http_call_def Let_def
      split: http_result.splits option.splits)

lemma getToken_error_token:
  "fst (getToken e s) = Inl err \<Longrightarrow> token (snd (getToken e s)) = token s"
  by (auto simp add: getToken_def Date_now_def http_call_def Let_def
      split: http_result.splits option.splits if_splits)

lemma getRequestSign_ticks: "ticks (snd (snd (getRequestSign e s p m h q b))) = ticks s + 1"
  by (simp add: getRequestSign_def Date_now_def Let_def split: option.splits)


lemma getRequestSign_eq:
  assumes "JSON_stringify body = Some js"
  shows "\<exists>url. canonical_url query path = Some url \<and>
    getRequestSign e s path method headers query body =
      (Inr \<lparr>h_t = show_nat (now e (ticks s)), h_path = url, h_client_id = accessKey (cfg e),
            h_sign = hex_upper (hmac_sha256 (bytes_of (secretKey (cfg e)))
               (bytes_of (accessKey (cfg e) @ token s @ show_nat (now e (ticks s))
                  @ method @ [CHR 0x0A] @ hex_lower (sha256 (bytes_of js)) @ [CHR 0x0A]
                  @ [] @ [CHR 0x0A] @ url))),
            h_sign_method = ''HMAC-SHA256'', h_access_token = token s\<rparr>,
       queryMerged query path, s\<lparr>ticks := ticks s + 1\<rparr>)"
  using assms
  by (simp add: canonical_url_eq getRequestSign_def Date_now_def Let_def encryptStr_def
      hmac_sha256_hex_def sha256_hex_def toUpperCase_hex_lower)

subsection \<open>Requests of the device gateway\<close>

lemma split_on_not_Nil: "split_on d s \<noteq> []"
  by (induction s) (auto split: list.splits)

lemma fst_split_path: "fst (split_path p) = hd (split_on CHR ''?'' p)"
  using split_on_not_Nil [of "CHR ''?''" p]
  by (auto simp add: split_path_def split: list.splits)

lemma fst_split_path_Cons:
  "c \<noteq> CHR ''?'' \<Longrightarrow> fst (split_path (c # cs)) = c # fst (split_path cs)"
  using split_on_not_Nil [of "CHR ''?''" cs]
  by (simp add: fst_split_path split: list.splits)

lemma device_url_prefix:
  assumes "canonical_url q (''/v1.0/devices/'' @ rest) = Some u"
  shows "take 14 u = ''/v1.0/devices/''"
proof -
  have "fst (split_path (''/v1.0/devices/'' @ rest)) = ''/v1.0/devices/'' @ fst (split_path rest)"
    by (simp add: fst_split_path_Cons)
  with assms show ?thesis
    by (auto simp add: canonical_url_eq split: if_splits)
qed

lemma ensure_token_held: "token s \<noteq> [] \<Longrightarrow> ensure_token e s = (Inr (), s)"
  by (simp add: ensure_token_def)

lemma http_call_sent: "sent (snd (http_call e s r)) = sent s @ [r]"
  by (simp add: http_call_def)

lemma controlDevice_held:
  assumes "token s \<noteq> []"
  shows "\<exists>r. sent (snd (controlDevice e s d c v)) = sent s @ [r] \<and> req_method r = ''POST''
            \<and> take 14 (req_url r) = ''/v1.0/devices/''"
proof -
  let ?body = "JObj [(''commands'', JArr [JObj [(''code'', JStr c), (''value'', v)]])]"
  let ?path = "''/v1.0/devices/'' @ d @ ''/commands''"
  obtain js where js: "JSON_stringify ?body = Some js" by simp
  from getRequestSign_eq [OF js, of "[]" ?path e s "''POST''" "[]"]
  obtain url where url: "canonical_url [] ?path = Some url"
    and sig: "fst (getRequestSign e s ?path ''POST'' [] [] ?body) = Inr
      \<lparr>h_t = show_nat (now e (ticks s)), h_path = url, h_client_id = accessKey (cfg e),
            h_sign = hex_upper (hmac_sha256 (bytes_of (secretKey (cfg e)))
               (bytes_of (accessKey (cfg e) @ token s @ show_nat (now e (ticks s))
                  @ ''POST'' @ [CHR 0x0A] @ hex_lower (sha256 (bytes_of js)) @ [CHR 0x0A]
                  @ [] @ [CHR 0x0A] @ url))),
            h_sign_method = ''HMAC-SHA256'', h_access_token = token s\<rparr>"
    and st: "snd (snd (getRequestSign e s ?path ''POST'' [] [] ?body)) = s\<lparr>ticks := ticks s + 1\<rparr>"
    by auto
  have pre: "take 14 url = ''/v1.0/devices/''"
    using device_url_prefix [of "[]" "d @ ''/commands''" url] url by simp
  show ?thesis
    using assms sig st pre
    by (cases "getRequestSign e s ?path ''POST'' [] [] ?body")
       (auto simp add: controlDevice_def ensure_token_held Let_def http_call_def)
qed


lemma getDeviceInfo_held:
  assumes "token s \<noteq> []"
  shows "\<exists>r. sent (snd (getDeviceInfo e s d)) = sent s @ [r] \<and> req_method r = ''GET''
            \<and> take 14 (req_url r) = ''/v1.0/devices/''"
proof -
  let ?path = "''/v1.0/devices/'' @ d"
  have js: "JSON_stringify (JObj []) = Some ''{}''" by simp
  from getRequestSign_eq [OF js, of "[]" ?path e s "''GET''" "[]"]
  obtain url where url: "canonical_url [] ?path = Some url"
    and sig: "fst (getRequestSign e s ?path ''GET'' [] [] (JObj [])) = Inr
      \<lparr>h_t = show_nat (now e (ticks s)), h_path = url, h_client_id = accessKey (cfg e),
            h_sign = hex_upper (hmac_sha256 (bytes_of (secretKey (cfg e)))
               (bytes_of (accessKey (cfg e) @ token s @ show_nat (now e (ticks s))
                  @ ''GET'' @ [CHR 0x0A] @ hex_lower (sha256 (bytes_of ''{}'')) @ [CHR 0x0A]
                  @ [] @ [CHR 0x0A] @ url))),
            h_sign_method = ''HMAC-SHA256'', h_access_token = token s\<rparr>"
    and st: "snd (snd (getRequestSign e s ?path ''GET'' [] [] (JObj []))) = s\<lparr>ticks := ticks s + 1\<rparr>"
    by auto
  have pre: "take 14 url = ''/v1.0/devices/''"
    using device_url_prefix [of "[]" d url] url by simp
  show ?thesis
    using assms sig st pre
    by (cases "getRequestSign e s ?path ''GET'' [] [] (JObj [])")
       (auto simp add: getDeviceInfo_def ensure_token_held Let_def http_call_def)
qed

section \<open>The claims\<close>

text \<open>
  C7. When a token is held (non-empty), ensuring a token is a no-op: \<^verbatim>\<open>controlDevice\<close>
  and \<^verbatim>\<open>getDeviceInfo\<close> send exactly one request, the device call itself, and no
  token exchange. \<^verbatim>\<open>getToken\<close>, which the manual and the periodic refresh run, always sends
  exactly one request, the token exchange, whatever the held token is.
\<close>
theorem ensure_token_noop_refresh_once:
  "(token s \<noteq> [] \<longrightarrow>
      ensure_token e s = (Inr (), s)
      \<and> (\<exists>r. sent (snd (controlDevice e s d c v)) = sent s @ [r]
               \<and> req_method r = ''POST'' \<and> take 14 (req_url r) = ''/v1.0/devices/'')
      \<and> (\<exists>r. sent (snd (getDeviceInfo e s d)) = sent s @ [r]
               \<and> req_method r = ''GET'' \<and> take 14 (req_url r) = ''/v1.0/devices/''))
   \<and> (\<exists>r. sent (snd (getToken e s)) = sent s @ [r]
            \<and> req_method r = ''GET'' \<and> req_url r = ''/v1.0/token?grant_type=1'')"
  using controlDevice_held [of s e d c v] getDeviceInfo_held [of s e d]
  by (simp add: ensure_token_held getToken_sent)

text \<open>The same at a state holding the token \<^verbatim>\<open>held\<close>.\<close>

theorem ensure_token_noop_refresh_once_witness:
  "token demo_state \<noteq> []
   \<and> ensure_token demo_env demo_state = (Inr (), demo_state)
   \<and> (\<exists>r. sent (snd (controlDevice demo_env demo_state ''dev1'' ''switch_led'' (JBool True)))
              = sent demo_state @ [r]
            \<and> req_method r = ''POST'' \<and> take 14 (req_url r) = ''/v1.0/devices/'')
   \<and> (\<exists>r. sent (snd (getToken demo_env demo_state)) = sent demo_state @ [r]
            \<and> req_method r = ''GET'' \<and> req_url r = ''/v1.0/token?grant_type=1'')"
  using ensure_token_noop_refresh_once [of demo_state demo_env "''dev1''" "''switch_led''" "JBool True"]
  by (simp add: demo_state_def)

text \<open>
  C8. A brightness outside 10..1000, and an HSV colour with \<open>h\<close> outside 0..360 or
  \<open>s\<close> or \<open>v\<close> outside 0..1000, is answered with status 400 and the state is exactly
  what it was: nothing was sent and the clock was not read. Each of \<^verbatim>\<open>getToken\<close>,
  \<^verbatim>\<open>getRequestSign\<close> and a call of the HTTP client changes the state (the first two read
  the clock, the last one sends), so none of them ran.
\<close>
theorem out_of_range_rejected:
  "(b < 10 \<or> 1000 < b \<longrightarrow> post_device_brightness e s (Some b) = (bad_request, s))
   \<and> ((\<exists>h. h' = Some h \<and> (h < 0 \<or> 360 < h)) \<or> (\<exists>x. s' = Some x \<and> (x < 0 \<or> 1000 < x))
        \<or> (\<exists>x. v' = Some x \<and> (x < 0 \<or> 1000 < x))
       \<longrightarrow> post_device_color_hsv e s h' s' v' = (bad_request, s))
   \<and> ticks (snd (getToken e s)) = ticks s + 1
   \<and> ticks (snd (snd (getRequestSign e s p m hs q bd))) = ticks s + 1
   \<and> sent (snd (http_call e s r)) = sent s @ [r]"
  by (auto simp add: post_device_brightness_def post_device_color_hsv_def getToken_ticks
      getRequestSign_ticks http_call_sent split: option.splits)

text \<open>Brightness 5000 and the colour \<open>{h: 400, s: 500, v: 500}\<close>.\<close>

theorem out_of_range_rejected_witness:
  "post_device_brightness demo_env demo_state (Some 5000) = (bad_request, demo_state)
   \<and> post_device_color_hsv demo_env demo_state (Some 400) (Some 500) (Some 500)
       = (bad_request, demo_state)"
  using out_of_range_rejected [of 5000 demo_env demo_state "Some 400" "Some 500" "Some 500"]
  by simp

text \<open>
  C9. When the token exchange fails (the client throws, the response is empty, or the
  envelope has \<open>success = false\<close>), \<^verbatim>\<open>getToken\<close> ends with an error and the stored token
  is the one held before; so it is after the timer's and the endpoint's refresh.
\<close>
theorem failed_exchange_keeps_token:
  assumes "server e (length (sent s)) (last (sent (snd (getToken e s)))) = res"
    and "(\<exists>m. res = NetworkError m) \<or> res = Response None
         \<or> (\<exists>d. res = Response (Some d) \<and> \<not> success d)"
  shows "(\<exists>err. fst (getToken e s) = Inl err)
         \<and> token (snd (getToken e s)) = token s
         \<and> token (timer_refresh e s) = token s
         \<and> token (snd (post_token_refresh e s)) = token s"
  using assms
  by (auto simp add: getToken_def Date_now_def http_call_def Let_def timer_refresh_def
      post_token_refresh_def split: http_result.splits option.splits if_splits)

text \<open>With an unreachable cloud the token \<^verbatim>\<open>held\<close> stays.\<close>

theorem failed_exchange_keeps_token_witness:
  "(\<exists>err. fst (getToken down_env demo_state) = Inl err)
   \<and> token (snd (getToken down_env demo_state)) = ''held''
   \<and> token (timer_refresh down_env demo_state) = ''held''"
  using failed_exchange_keeps_token [of down_env demo_state "NetworkError ''timeout of 10000ms exceeded''"]
  by (simp add: down_env_def demo_state_def)

text \<open>
  C4. The request \<^verbatim>\<open>getToken\<close> sends, its signature included, is the same whatever
  token is held, for the same clock reading and credentials: the signature is computed
  from the access key, the timestamp and the string to sign only.
\<close>
theorem acquisition_signature_ignores_token:
  "sent (snd (getToken e (s\<lparr>token := tok\<rparr>))) = sent (snd (getToken e (s\<lparr>token := []\<rparr>)))
   \<and> map_of (req_headers (last (sent (snd (getToken e (s\<lparr>token := tok\<rparr>)))))) ''sign''
     = Some (encryptStr (accessKey (cfg e) @ show_nat (now e (ticks s))
              @ join_with [CHR 0x0A] [''GET'', sha256_hex [], [], ''/v1.0/token?grant_type=1''])
              (secretKey (cfg e)))"
  by (simp add: getToken_sent)

text \<open>Holding the token \<^verbatim>\<open>stale\<close> or none.\<close>

theorem acquisition_signature_ignores_token_witness:
  "sent (snd (getToken demo_env (demo_state\<lparr>token := ''stale''\<rparr>)))
     = sent (snd (getToken demo_env (demo_state\<lparr>token := []\<rparr>)))"
  using acquisition_signature_ignores_token [where e = demo_env and s = demo_state and tok = "''stale''"]
  by simp

lemma toLowerCase_red: "toLowerCase ''red'' = ''red''"
  by (simp add: toLowerCase_def lower_char_def is_upper_def)

text \<open>
  C6. The preset \<^verbatim>\<open>red\<close> resolves to \<open>{h: 0, s: 1000, v: 1000}\<close>, and the preset
  endpoint then does what the HSV endpoint does with \<open>h = 0\<close>, \<open>s = 1000\<close>, \<open>v = 1000\<close>:
  the same call of \<^verbatim>\<open>controlDevice\<close>, hence the same requests sent (code, body, signature),
  the same final state and the same answer, from the same state, clock and cloud.
\<close>
theorem preset_red_is_hsv_call:
  "presetColors (toLowerCase ''red'') = Some (JObj [(''h'', JNum 0), (''s'', JNum 1000), (''v'', JNum 1000)])
   \<and> post_device_color_preset e s (Some ''red'')
       = respond (controlDevice e s (deviceId (cfg e)) ''colour_data_v2''
           (JObj [(''h'', JNum 0), (''s'', JNum 1000), (''v'', JNum 1000)]))
   \<and> post_device_color_preset e s (Some ''red'')
       = post_device_color_hsv e s (Some 0) (Some 1000) (Some 1000)"
  by (simp add: post_device_color_preset_def post_device_color_hsv_def toLowerCase_red
      presetColors_def hsv_def Math_round_def)

text \<open>The same at the example surroundings.\<close>

theorem preset_red_is_hsv_call_witness:
  "post_device_color_preset demo_env demo_state (Some ''red'')
     = post_device_color_hsv demo_env demo_state (Some 0) (Some 1000) (Some 1000)"
  using preset_red_is_hsv_call [where e = demo_env and s = demo_state]
  by (elim conjE)













text \<open>
  C3. For every call of \<^verbatim>\<open>getRequestSign\<close> whose body serializes, the call succeeds and
  the signature is the uppercase hexadecimal encoding of HMAC-SHA256, keyed by the secret
  key, of the access key, the current token, the timestamp and the string to sign, which is
  the method, the content hash (lowercase hex SHA-256 of the serialized body), an empty
  line and the canonical path, joined by line feeds.
\<close>
theorem signature_is_uppercase_hmac:
  assumes "JSON_stringify body = Some js"
  shows "\<exists>h. fst (getRequestSign e s path meth hdrs query body) = Inr h
     \<and> canonical_url query path = Some (h_path h)
     \<and> h_t h = show_nat (now e (ticks s))
     \<and> h_access_token h = token s
     \<and> h_sign h = hex_upper (hmac_sha256 (bytes_of (secretKey (cfg e)))
         (bytes_of (accessKey (cfg e) @ token s @ h_t h
            @ (meth @ [CHR 0x0A] @ hex_lower (sha256 (bytes_of js)) @ [CHR 0x0A]
                 @ [] @ [CHR 0x0A] @ h_path h))))"
  using getRequestSign_eq [OF assms, of query path e s meth hdrs]
  by auto

text \<open>The signing of \<^verbatim>\<open>GET /v1.0/devices/dev1\<close> with an empty object as body.\<close>

theorem signature_is_uppercase_hmac_witness:
  "JSON_stringify (JObj []) = Some ''{}''
   \<and> (\<exists>h. fst (getRequestSign demo_env demo_state ''/v1.0/devices/dev1'' ''GET'' [] [] (JObj [])) = Inr h
     \<and> canonical_url [] ''/v1.0/devices/dev1'' = Some (h_path h)
     \<and> h_t h = show_nat (now demo_env (ticks demo_state))
     \<and> h_access_token h = token demo_state
     \<and> h_sign h = hex_upper (hmac_sha256 (bytes_of (secretKey (cfg demo_env)))
         (bytes_of (accessKey (cfg demo_env) @ token demo_state @ h_t h
            @ (''GET'' @ [CHR 0x0A] @ hex_lower (sha256 (bytes_of ''{}'')) @ [CHR 0x0A]
                 @ [] @ [CHR 0x0A] @ h_path h)))))"
proof -
  have js: "JSON_stringify (JObj []) = Some ''{}''" by simp
  show ?thesis
    using js signature_is_uppercase_hmac [OF js, where e = demo_env and s = demo_state
        and path = "''/v1.0/devices/dev1''" and meth = "''GET''" and hdrs = "[]" and query = "[]"]
    by blast
qed


subsection \<open>Parsing a list of parameters\<close>

lemma split_on_no_sep: "d \<notin> set x \<Longrightarrow> split_on d x = [x]"
  by (induction x) auto

lemma split_on_append_sep: "d \<notin> set x \<Longrightarrow> split_on d (x @ d # rest) = x # split_on d rest"
  by (induction x) auto

lemma split_on_join:
  assumes "\<forall>p \<in> set parts. d \<notin> set p" "parts \<noteq> []"
  shows "split_on d (join_with [d] parts) = parts"
  using assms
proof (induction parts rule: induct_list012)
  case 1
  then show ?case by simp
next
  case (2 x)
  then show ?case by (simp add: split_on_no_sep)
next
  case (3 x y zs)
  then show ?case by (simp add: split_on_append_sep)
qed

lemma split_path_query:
  assumes "CHR ''?'' \<notin> set uri" "CHR ''?'' \<notin> set q"
  shows "split_path (uri @ ''?'' @ q) = (uri, Some q)"
  using assms by (simp add: split_path_def split_on_append_sep split_on_no_sep)

lemma update_absent: "k \<notin> fst ` set al \<Longrightarrow> AList.update k v al = al @ [(k, v)]"
  by (induction al) auto

lemma add_param_new:
  assumes "fst (split_param part) \<notin> fst ` set ob"
  shows "add_param part ob = ob @ [param_entry part]"
proof -
  obtain k v where kv: "split_param part = (k, v)" by (cases "split_param part")
  then have "map_of ob k = None"
    using assms by (simp add: map_of_eq_None_iff)
  then show ?thesis
    using assms kv by (simp add: add_param_def param_entry_def update_absent)
qed

lemma fold_add_param_new:
  assumes "distinct (map (\<lambda>p. fst (split_param p)) parts)"
    and "\<forall>p \<in> set parts. fst (split_param p) \<notin> fst ` set ob"
  shows "fold add_param parts ob = ob @ map param_entry parts"
  using assms
proof (induction parts arbitrary: ob)
  case Nil
  then show ?case by simp
next
  case (Cons p ps)
  have new: "add_param p ob = ob @ [param_entry p]"
    using Cons.prems by (simp add: add_param_new)
  have "\<forall>x \<in> set ps. fst (split_param x) \<notin> fst ` set (ob @ [param_entry p])"
  proof
    fix x
    assume x: "x \<in> set ps"
    then have "fst (split_param x) \<in> (\<lambda>p. fst (split_param p)) ` set ps" by (rule imageI)
    moreover have "fst (split_param p) \<notin> (\<lambda>p. fst (split_param p)) ` set ps"
      using Cons.prems(1) by simp
    ultimately have "fst (split_param x) \<noteq> fst (split_param p)" by metis
    moreover have "fst (split_param x) \<notin> fst ` set ob"
      using Cons.prems(2) x by simp
    ultimately show "fst (split_param x) \<notin> fst ` set (ob @ [param_entry p])"
      by (simp add: param_entry_def)
  qed
  then have "fold add_param ps (ob @ [param_entry p]) = (ob @ [param_entry p]) @ map param_entry ps"
    using Cons.IH [of "ob @ [param_entry p]"] Cons.prems by simp
  then show ?case by (simp add: new)
qed

lemma join_with_empty:
  assumes "join_with [d] parts = []" "parts \<noteq> []"
  shows "parts = [[]]"
  using assms by (induction parts rule: induct_list012) auto

lemma split_param_empty: "split_param [] = ([], [])"
  by code_simp

lemma qs_parse_join:
  assumes "\<forall>p \<in> set parts. CHR ''&'' \<notin> set p" "parts \<noteq> []" "length parts \<le> 1000"
    and "distinct (map (\<lambda>p. fst (split_param p)) parts)"
  shows "qs_parse (Some (join_with ''&'' parts)) = filter (\<lambda>e. kept_key (fst e)) (map param_entry parts)"
proof (cases "join_with ''&'' parts = []")
  case True
  then have "parts = [[]]" using assms(2) by (rule join_with_empty)
  then show ?thesis
    by (simp add: qs_parse_def param_entry_def split_param_empty kept_key_def)
next
  case False
  have "parseValues (join_with ''&'' parts) = map param_entry parts"
    using assms fold_add_param_new [of parts "[]"]
    by (simp add: parseValues_def split_on_join)
  with False show ?thesis by (simp add: qs_parse_def)
qed


lemma map_fst_update:
  "map fst (AList.update k v al) = (if k \<in> fst ` set al then map fst al else map fst al @ [k])"
  by (induction al) auto

lemma mset_keys_fold_update:
  assumes "distinct (map fst es)"
  shows "mset (map fst (fold (\<lambda>e. AList.update (fst e) (snd e)) es t))
       = mset (map fst t) + mset (filter (\<lambda>k. k \<notin> fst ` set t) (map fst es))"
  using assms
proof (induction es arbitrary: t)
  case Nil
  then show ?case by simp
next
  case (Cons e es)
  let ?t = "AList.update (fst e) (snd e) t"
  have keys: "fst ` set ?t = insert (fst e) (fst ` set t)"
    by (simp add: dom_update)
  have "filter (\<lambda>k. k \<notin> fst ` set ?t) (map fst es) = filter (\<lambda>k. k \<notin> fst ` set t) (map fst es)"
  proof (rule filter_cong [OF refl])
    fix x
    assume "x \<in> set (map fst es)"
    then have b: "x \<in> fst ` set es" by simp
    have a: "fst e \<notin> fst ` set es" using Cons.prems by simp
    from a b have "x \<noteq> fst e" by blast
    then show "(x \<notin> fst ` set ?t) = (x \<notin> fst ` set t)" by (simp add: keys)
  qed
  moreover have "mset (map fst (fold (\<lambda>e. AList.update (fst e) (snd e)) es ?t))
      = mset (map fst ?t) + mset (filter (\<lambda>k. k \<notin> fst ` set ?t) (map fst es))"
    using Cons.prems by (intro Cons.IH) simp
  moreover have "mset (map fst ?t)
      = mset (map fst t) + (if fst e \<in> fst ` set t then {#} else {#fst e#})"
    by (simp add: map_fst_update)
  ultimately show ?case by simp
qed

lemma mset_keys_Object_assign:
  assumes "distinct (map fst source)"
  shows "mset (Object_keys (Object_assign target source))
       = mset (map fst target) + mset (filter (\<lambda>k. k \<notin> fst ` set target) (map fst source))"
proof -
  have d: "distinct (map fst (own_entries source))"
    using assms by (simp add: distinct_own_entries)
  have "mset (filter (\<lambda>k. k \<notin> fst ` set target) (map fst (own_entries source)))
      = mset (filter (\<lambda>k. k \<notin> fst ` set target) (map fst source))"
    by (simp add: mset_own_entries)
  moreover have "mset (Object_keys (Object_assign target source))
      = mset (map fst (Object_assign target source))"
    by (simp add: Object_keys_def mset_own_entries)
  ultimately show ?thesis
    using mset_keys_fold_update [OF d, of target] by (simp add: Object_assign_def)
qed

lemma sortedQuery_cong:
  assumes "map_of (queryMerged query p) = map_of (queryMerged query p')"
    and "mset (Object_keys (queryMerged query p)) = mset (Object_keys (queryMerged query p'))"
  shows "sortedQuery query p = sortedQuery query p'"
proof -
  from assms(2) have "sorted_list_of_multiset (mset (Object_keys (queryMerged query p)))
      = sorted_list_of_multiset (mset (Object_keys (queryMerged query p')))"
    by (rule arg_cong)
  then have "sort (Object_keys (queryMerged query p)) = sort (Object_keys (queryMerged query p'))"
    by (simp only: sorted_list_of_multiset_mset)
  then show ?thesis
    using assms(1) by (simp add: sortedQuery_def Let_def)
qed

lemma parsed_permuted:
  assumes "mset parts' = mset parts"
    and "distinct (map (\<lambda>p. fst (split_param p)) parts)"
  shows "mset (filter (\<lambda>e. kept_key (fst e)) (map param_entry parts'))
       = mset (filter (\<lambda>e. kept_key (fst e)) (map param_entry parts))"
    and "distinct (map fst (filter (\<lambda>e. kept_key (fst e)) (map param_entry parts)))"
    and "distinct (map (\<lambda>p. fst (split_param p)) parts')"
proof -
  show "mset (filter (\<lambda>e. kept_key (fst e)) (map param_entry parts'))
       = mset (filter (\<lambda>e. kept_key (fst e)) (map param_entry parts))"
    using assms(1) by simp
  have "map fst (map param_entry parts) = map (\<lambda>p. fst (split_param p)) parts"
    by (simp add: param_entry_def comp_def)
  then have "distinct (map fst (map param_entry parts))"
    using assms(2) by (simp only:)
  then show "distinct (map fst (filter (\<lambda>e. kept_key (fst e)) (map param_entry parts)))"
    by (rule distinct_map_filter)
  have "mset (map (\<lambda>p. fst (split_param p)) parts') = mset (map (\<lambda>p. fst (split_param p)) parts)"
    using assms(1) by simp
  then have "distinct (map (\<lambda>p. fst (split_param p)) parts')
      = distinct (map (\<lambda>p. fst (split_param p)) parts)"
    by (rule mset_eq_imp_distinct_iff)
  then show "distinct (map (\<lambda>p. fst (split_param p)) parts')"
    using assms(2) by (simp only:)
qed


lemma permuted_path_same_sortedQuery:
  assumes uri: "CHR ''?'' \<notin> set uri"
    and chars: "\<forall>p \<in> set parts. CHR ''&'' \<notin> set p \<and> CHR ''?'' \<notin> set p"
    and keys: "distinct (map (\<lambda>p. fst (split_param p)) parts)"
    and len: "length parts \<le> 1000"
    and perm: "mset parts' = mset parts"
  shows "sortedQuery query (uri @ ''?'' @ join_with ''&'' parts')
       = sortedQuery query (uri @ ''?'' @ join_with ''&'' parts)"
    and "fst (split_path (uri @ ''?'' @ join_with ''&'' parts')) = uri"
    and "fst (split_path (uri @ ''?'' @ join_with ''&'' parts)) = uri"
proof -
  let ?P = "filter (\<lambda>e. kept_key (fst e)) (map param_entry parts)"
  let ?P' = "filter (\<lambda>e. kept_key (fst e)) (map param_entry parts')"
  have set_eq: "set parts' = set parts" using perm by (rule mset_eq_setD)
  have len': "length parts' = length parts" using perm by (rule mset_eq_length)
  have chars': "\<forall>p \<in> set parts'. CHR ''&'' \<notin> set p \<and> CHR ''?'' \<notin> set p"
    using chars set_eq by simp
  have q: "CHR ''?'' \<notin> set (join_with ''&'' ps)"
    if "\<forall>p \<in> set ps. CHR ''&'' \<notin> set p \<and> CHR ''?'' \<notin> set p" for ps
    using that by (induction ps rule: induct_list012) auto
  have sp: "split_path (uri @ ''?'' @ join_with ''&'' parts) = (uri, Some (join_with ''&'' parts))"
    using uri q [OF chars] by (rule split_path_query)
  have sp': "split_path (uri @ ''?'' @ join_with ''&'' parts') = (uri, Some (join_with ''&'' parts'))"
    using uri q [OF chars'] by (rule split_path_query)
  show "fst (split_path (uri @ ''?'' @ join_with ''&'' parts')) = uri"
    and "fst (split_path (uri @ ''?'' @ join_with ''&'' parts)) = uri"
    by (simp_all only: sp sp' fst_conv)
  show "sortedQuery query (uri @ ''?'' @ join_with ''&'' parts')
       = sortedQuery query (uri @ ''?'' @ join_with ''&'' parts)"
  proof (cases "parts = []")
    case True
    then have "parts' = []" using perm by simp
    with True show ?thesis by simp
  next
    case False
    then have ne': "parts' \<noteq> []" using perm by auto
    have keys': "distinct (map (\<lambda>p. fst (split_param p)) parts')"
      using perm keys by (rule parsed_permuted(3))
    have parsed: "qs_parse (Some (join_with ''&'' parts)) = ?P"
      using chars False len keys by (intro qs_parse_join) simp_all
    have parsed': "qs_parse (Some (join_with ''&'' parts')) = ?P'"
      using chars' ne' len len' keys' by (intro qs_parse_join) simp_all
    have msetP: "mset ?P' = mset ?P"
      using perm keys by (rule parsed_permuted(1))
    have dP: "distinct (map fst ?P)"
      using perm keys by (rule parsed_permuted(2))
    have "mset (map fst ?P') = mset (map fst ?P)"
      using msetP by (metis mset_map)
    then have "distinct (map fst ?P') = distinct (map fst ?P)"
      by (rule mset_eq_imp_distinct_iff)
    with dP have dP': "distinct (map fst ?P')" by (simp only:)
    have "set ?P' = set ?P" using msetP by (rule mset_eq_setD)
    with dP dP' have mapP: "map_of ?P' = map_of ?P"
      by (simp only: map_of_inject_set)
    have qm: "queryMerged query (uri @ ''?'' @ join_with ''&'' parts) = Object_assign query ?P"
      by (simp only: queryMerged_def sp snd_conv parsed)
    have qm': "queryMerged query (uri @ ''?'' @ join_with ''&'' parts') = Object_assign query ?P'"
      by (simp only: queryMerged_def sp' snd_conv parsed')
    have m: "map_of (Object_assign query ?P') = map_of (Object_assign query ?P)"
      using dP dP' mapP by (simp only: map_of_Object_assign)
    have "mset (filter (\<lambda>k. k \<notin> fst ` set query) (map fst ?P'))
        = mset (filter (\<lambda>k. k \<notin> fst ` set query) (map fst ?P))"
      using \<open>mset (map fst ?P') = mset (map fst ?P)\<close> by (simp only: mset_filter)
    then have k: "mset (Object_keys (Object_assign query ?P'))
        = mset (Object_keys (Object_assign query ?P))"
      using dP dP' by (simp only: mset_keys_Object_assign)
    show ?thesis
      using m k by (intro sortedQuery_cong) (simp_all only: qm qm')
  qed
qed

subsection \<open>Rotations\<close>

text \<open>
  A rotation by \<open>n\<close> bits, \<open>0 < n < 32\<close>, is the library's \<^const>\<open>word_rotr\<close>; the
  four functions of SHA-256 are evaluated through it.
\<close>

lemma rotr_word_rotr:
  assumes "0 < n" "n < 32"
  shows "rotr n x = word_rotr n x"
proof (rule bit_word_eqI)
  fix k
  assume k: "k < LENGTH(32)"
  show "bit (rotr n x) k = bit (word_rotr n x) k"
  proof (cases "k + n < 32")
    case True
    then have "(k + n) mod 32 = k + n" by simp
    with True k assms show ?thesis
      by (auto simp add: rotr_def bit_or_iff bit_drop_bit_eq bit_push_bit_iff bit_word_rotr_iff ac_simps)
  next
    case False
    then have m: "(k + n) mod 32 = k + n - 32"
      using k assms by (simp add: mod_if)
    have "\<not> bit x (n + k)"
      using False bit_imp_le_length [of x "n + k"] by auto
    moreover have "k - (32 - n) = k + n - 32" using False assms by simp
    ultimately show ?thesis
      using False k assms m
      by (auto simp add: rotr_def bit_or_iff bit_drop_bit_eq bit_push_bit_iff bit_word_rotr_iff ac_simps)
  qed
qed

lemma bsig0_code [code]: "bsig0 x = word_rotr 2 x XOR word_rotr 13 x XOR word_rotr 22 x"
  by (simp add: bsig0_def rotr_word_rotr)

lemma bsig1_code [code]: "bsig1 x = word_rotr 6 x XOR word_rotr 11 x XOR word_rotr 25 x"
  by (simp add: bsig1_def rotr_word_rotr)

lemma ssig0_code [code]: "ssig0 x = word_rotr 7 x XOR word_rotr 18 x XOR drop_bit 3 x"
  by (simp add: ssig0_def rotr_word_rotr)

lemma ssig1_code [code]: "ssig1 x = word_rotr 17 x XOR word_rotr 19 x XOR drop_bit 10 x"
  by (simp add: ssig1_def rotr_word_rotr)

subsection \<open>Digests\<close>

lemma sha256_hex_empty:
  "sha256_hex [] = ''e3b0c44298fc1c149afbf4c8996fb92427ae41e4649b934ca495991b7852b855''"
  by code_simp

lemma sha256_hex_braces:
  "sha256_hex ''{}'' = ''44136fa355b3678a1146ad16f7e8649e94fb4fc21fe77e8310c060f61caaff8a''"
  by code_simp


text \<open>The chaining values, each one compression evaluated from the one before.\<close>

lemma ex_inner1_value [code]:
  "ex_inner1 = [4249502411, 3132185411, 1465836574, 1984582604,
                1284490698, 179827564, 2637616057, 4103061806]"
  by code_simp

lemma ex_outer1_value [code]:
  "ex_outer1 = [2244227274, 2024067156, 1985468422, 2713036752,
                4124690160, 3595404420, 1205809844, 3463451976]"
  by code_simp

lemma ex_inner2_value [code]:
  "ex_inner2 = [1329477706, 788606476, 489757, 4169094764,
                3123423090, 2246210712, 1968048196, 392719235]"
  by code_simp

lemma ex_inner3_12_value [code]:
  "ex_inner3_12 = [3678667798, 3979325488, 2346274454, 2328269151,
                   4223139742, 4090021712, 453282967, 2351746797]"
  by code_simp

lemma ex_inner3_21_value [code]:
  "ex_inner3_21 = [682616636, 3825891702, 510713885, 4059963020,
                   1972400849, 22503593, 3349946690, 927225763]"
  by code_simp

lemma ex_outer2_12_value [code]:
  "ex_outer2_12 = [2931549076, 296830405, 3858169771, 1602390702,
                   960435947, 3923493729, 145462903, 400254756]"
  by code_simp

lemma ex_outer2_21_value [code]:
  "ex_outer2_21 = [1639667280, 1796394, 18711931, 4159928159,
                   2070816268, 1860420336, 45370418, 2760958867]"
  by code_simp

subsection \<open>The HMAC of the example requests\<close>

lemma hmac_example: "hmac_sha256 (bytes_of ''sk'') m = sha256 (ex_opad @ sha256 (ex_ipad @ m))"
  by (simp add: hmac_sha256_def Let_def ex_opad_def ex_ipad_def bytes_of_def)

lemma length_ex_ipad: "length ex_ipad = 64"
  by (simp add: ex_ipad_def bytes_of_def)

lemma length_ex_opad: "length ex_opad = 64"
  by (simp add: ex_opad_def bytes_of_def)

lemma chunks3: "chunks (Suc (Suc (Suc 0))) 64 xs = [take 64 xs, take 64 (drop 64 xs), take 64 (drop 128 xs)]"
  by simp

lemma chunks2: "chunks (Suc (Suc 0)) 64 xs = [take 64 xs, take 64 (drop 64 xs)]"
  by simp

lemma length_pad: "length (pad m) = length m + 9 + (119 - length m mod 64) mod 64"
  by (simp add: pad_def)

lemma pad_prefix: "n \<le> length m \<Longrightarrow> take n (pad m) = take n m"
  by (simp add: pad_def)

lemma inner_blocks:
  assumes "length m = 105"
  shows "chunks (length (pad (ex_ipad @ m)) div 64) 64 (pad (ex_ipad @ m))
       = [ex_ipad, take 64 m, drop 128 (pad (ex_ipad @ m))]"
proof -
  have len: "length (pad (ex_ipad @ m)) = 192"
    using assms by (simp add: length_pad length_ex_ipad)
  have three: "(192::nat) div 64 = Suc (Suc (Suc 0))" by simp
  have a: "take 64 (pad (ex_ipad @ m)) = ex_ipad"
    by (simp add: pad_def length_ex_ipad)
  have "take 128 (pad (ex_ipad @ m)) = take 128 (ex_ipad @ m)"
    using assms by (intro pad_prefix) (simp add: length_ex_ipad)
  then have "drop 64 (take 128 (pad (ex_ipad @ m))) = take 64 m"
    by (simp add: length_ex_ipad)
  then have b: "take 64 (drop 64 (pad (ex_ipad @ m))) = take 64 m"
    by (simp add: drop_take)
  have c: "take 64 (drop 128 (pad (ex_ipad @ m))) = drop 128 (pad (ex_ipad @ m))"
    using len by simp
  show ?thesis
    by (simp only: len three chunks3 a b c)
qed

lemma outer_blocks:
  assumes "length d = 32"
  shows "chunks (length (pad (ex_opad @ d)) div 64) 64 (pad (ex_opad @ d))
       = [ex_opad, drop 64 (pad (ex_opad @ d))]"
proof -
  have len: "length (pad (ex_opad @ d)) = 128"
    using assms by (simp add: length_pad length_ex_opad)
  have two: "(128::nat) div 64 = Suc (Suc 0)" by simp
  have a: "take 64 (pad (ex_opad @ d)) = ex_opad"
    by (simp add: pad_def length_ex_opad)
  have b: "take 64 (drop 64 (pad (ex_opad @ d))) = drop 64 (pad (ex_opad @ d))"
    using len by simp
  show ?thesis
    by (simp only: len two chunks2 a b)
qed

lemma length_ex_msg: "length (ex_msg ''/x?a[0]=1&a[1]=2'') = 105" "length (ex_msg ''/x?a[0]=2&a[1]=1'') = 105"
  by (simp_all add: ex_msg_def bytes_of_def)

lemma prefix_ex_msg:
  "take 64 (ex_msg ''/x?a[0]=1&a[1]=2'') = take 64 (ex_msg ''/x?'')"
  "take 64 (ex_msg ''/x?a[0]=2&a[1]=1'') = take 64 (ex_msg ''/x?'')"
  by (simp_all add: ex_msg_def bytes_of_def)

lemma foldl3: "foldl compress h [a, b, c] = compress (compress (compress h a) b) c"
  by simp

lemma foldl2: "foldl compress h [a, b] = compress (compress h a) b"
  by simp

lemma inner_digest_12: "sha256 (ex_ipad @ ex_msg ''/x?a[0]=1&a[1]=2'') = concat (map word_bytes ex_inner3_12)"
  by (simp only: sha256_def inner_blocks [OF length_ex_msg(1)] prefix_ex_msg foldl3
      ex_inner3_12_def ex_inner3_def ex_inner2_def ex_inner1_def)

lemma inner_digest_21: "sha256 (ex_ipad @ ex_msg ''/x?a[0]=2&a[1]=1'') = concat (map word_bytes ex_inner3_21)"
  by (simp only: sha256_def inner_blocks [OF length_ex_msg(2)] prefix_ex_msg foldl3
      ex_inner3_21_def ex_inner3_def ex_inner2_def ex_inner1_def)

lemma outer_digest:
  assumes "length d = 32"
  shows "sha256 (ex_opad @ d) = concat (map word_bytes (compress ex_outer1 (drop 64 (pad (ex_opad @ d)))))"
  by (simp only: sha256_def outer_blocks [OF assms] foldl2 ex_outer1_def)

lemma length_word_bytes: "length (concat (map word_bytes [a, b, c, d, e, f, g, h])) = 32"
  by (simp add: word_bytes_def)


lemma example_signature_12:
  "hex_upper (hmac_sha256 (bytes_of ''sk'') (ex_msg ''/x?a[0]=1&a[1]=2''))
       = ''AEBBE39411B145C5E5F6FFAB5F828AAE393F16EBE9DBC36108AB967717DB6724''"
proof -
  have len: "length (concat (map word_bytes ex_inner3_12)) = 32"
    by (simp only: ex_inner3_12_value length_word_bytes)
  have "hmac_sha256 (bytes_of ''sk'') (ex_msg ''/x?a[0]=1&a[1]=2'') = concat (map word_bytes ex_outer2_12)"
    by (simp only: hmac_example inner_digest_12 outer_digest [OF len] ex_outer2_12_def)
  moreover have "hex_upper (concat (map word_bytes
      [2931549076, 296830405, 3858169771, 1602390702, 960435947, 3923493729, 145462903, 400254756]))
      = ''AEBBE39411B145C5E5F6FFAB5F828AAE393F16EBE9DBC36108AB967717DB6724''"
    by code_simp
  ultimately show ?thesis by (simp only: ex_outer2_12_value)
qed


lemma canonical_12: "canonical_url [] ''/x?a=1&a=2'' = Some ''/x?a[0]=1&a[1]=2''"
  by code_simp

lemma canonical_21: "canonical_url [] ''/x?a=2&a=1'' = Some ''/x?a[0]=2&a[1]=1''"
  by code_simp

lemma show_time: "show_nat 1700000000000 = ''1700000000000''"
  by (simp add: show_nat.simps digit_char_def char_of_eq_iff)

lemma demo_fields:
  "secretKey (cfg demo_env) = ''sk''" "accessKey (cfg demo_env) = ''ak''"
  "token demo_state = ''held''" "now demo_env (ticks demo_state) = 1700000000000"
  by (simp_all add: demo_env_def demo_state_def)

lemma getRequestSign_at:
  assumes "JSON_stringify body = Some js" and "canonical_url query path = Some url"
  shows "getRequestSign e s path meth hdrs query body =
      (Inr \<lparr>h_t = show_nat (now e (ticks s)), h_path = url, h_client_id = accessKey (cfg e),
            h_sign = hex_upper (hmac_sha256 (bytes_of (secretKey (cfg e)))
               (bytes_of (accessKey (cfg e) @ token s @ show_nat (now e (ticks s))
                  @ meth @ [CHR 0x0A] @ hex_lower (sha256 (bytes_of js)) @ [CHR 0x0A]
                  @ [] @ [CHR 0x0A] @ url))),
            h_sign_method = ''HMAC-SHA256'', h_access_token = token s\<rparr>,
       queryMerged query path, s\<lparr>ticks := ticks s + 1\<rparr>)"
  using getRequestSign_eq [OF assms(1), of query path e s meth hdrs] assms(2) by auto

lemma example_request:
  assumes url: "canonical_url [] path = Some url"
  shows "map_sum id h_sign (fst (getRequestSign demo_env demo_state path ''GET'' [] [] (JObj [])))
       = Inr (hex_upper (hmac_sha256 (bytes_of ''sk'') (ex_msg url)))"
proof -
  have js: "JSON_stringify (JObj []) = Some ''{}''" by simp
  have h': "hex_lower (sha256 (bytes_of ''{}'')) = ''44136fa355b3678a1146ad16f7e8649e94fb4fc21fe77e8310c060f61caaff8a''"
    using sha256_hex_braces by (simp only: sha256_hex_def)
  have msg: "bytes_of (''ak'' @ ''held'' @ ''1700000000000'' @ ''GET'' @ [CHR 0x0A]
      @ ''44136fa355b3678a1146ad16f7e8649e94fb4fc21fe77e8310c060f61caaff8a''
      @ [CHR 0x0A] @ [] @ [CHR 0x0A] @ url) = ex_msg url"
    by (simp only: ex_msg_def)
  show ?thesis
    by (simp only: getRequestSign_at [OF js url] fst_conv map_sum.simps sign_headers.select_convs
        demo_fields show_time h' msg)
qed


lemma example_signature_21:
  "hex_upper (hmac_sha256 (bytes_of ''sk'') (ex_msg ''/x?a[0]=2&a[1]=1''))
       = ''61BB5650001B692A011D857BF7F3775F7B6E260C6EE3C2F002B44C32A490E393''"
proof -
  have len: "length (concat (map word_bytes ex_inner3_21)) = 32"
    by (simp only: ex_inner3_21_value length_word_bytes)
  have "hmac_sha256 (bytes_of ''sk'') (ex_msg ''/x?a[0]=2&a[1]=1'') = concat (map word_bytes ex_outer2_21)"
    by (simp only: hmac_example inner_digest_21 outer_digest [OF len] ex_outer2_21_def)
  moreover have "hex_upper (concat (map word_bytes
      [1639667280, 1796394, 18711931, 4159928159, 2070816268, 1860420336, 45370418, 2760958867]))
      = ''61BB5650001B692A011D857BF7F3775F7B6E260C6EE3C2F002B44C32A490E393''"
    by code_simp
  ultimately show ?thesis by (simp only: ex_outer2_21_value)
qed

lemma plain_dup: "plain_path ''/x?a=1&a=2'' \<and> plain_path ''/x?a=2&a=1''"
  by code_simp

text \<open>
  C5 as stated fails. The paths \<^verbatim>\<open>/x?a=1&a=2\<close> and \<^verbatim>\<open>/x?a=2&a=1\<close> carry the same
  parameters in another order. \<^verbatim>\<open>qs.parse\<close> collects the values of the repeated name in an
  array, in the order of the path, so the canonical paths are \<^verbatim>\<open>/x?a[0]=1&a[1]=2\<close> and
  \<^verbatim>\<open>/x?a[0]=2&a[1]=1\<close>, and for the same clock reading, token, method and body the two
  signatures differ.
\<close>

theorem parameter_order_changes_signature_counterexample:
  "map_sum id h_sign
       (fst (getRequestSign demo_env demo_state ''/x?a=1&a=2'' ''GET'' [] [] (JObj [])))
     = Inr ''AEBBE39411B145C5E5F6FFAB5F828AAE393F16EBE9DBC36108AB967717DB6724''
   \<and> map_sum id h_sign
       (fst (getRequestSign demo_env demo_state ''/x?a=2&a=1'' ''GET'' [] [] (JObj [])))
     = Inr ''61BB5650001B692A011D857BF7F3775F7B6E260C6EE3C2F002B44C32A490E393''
   \<and> map_sum id h_sign
       (fst (getRequestSign demo_env demo_state ''/x?a=1&a=2'' ''GET'' [] [] (JObj [])))
     \<noteq> map_sum id h_sign
       (fst (getRequestSign demo_env demo_state ''/x?a=2&a=1'' ''GET'' [] [] (JObj [])))"
proof -
  have a: "map_sum id h_sign
        (fst (getRequestSign demo_env demo_state ''/x?a=1&a=2'' ''GET'' [] [] (JObj [])))
      = Inr ''AEBBE39411B145C5E5F6FFAB5F828AAE393F16EBE9DBC36108AB967717DB6724''"
    by (simp only: example_request [OF canonical_12] example_signature_12)
  have b: "map_sum id h_sign
        (fst (getRequestSign demo_env demo_state ''/x?a=2&a=1'' ''GET'' [] [] (JObj [])))
      = Inr ''61BB5650001B692A011D857BF7F3775F7B6E260C6EE3C2F002B44C32A490E393''"
    by (simp only: example_request [OF canonical_21] example_signature_21)
  have c: "(Inr ''AEBBE39411B145C5E5F6FFAB5F828AAE393F16EBE9DBC36108AB967717DB6724'' :: error + string)
      \<noteq> Inr ''61BB5650001B692A011D857BF7F3775F7B6E260C6EE3C2F002B44C32A490E393''"
    by simp
  show ?thesis by (simp only: a b c simp_thms)
qed

text \<open>
  C5 as amended. For a fixed clock reading, token, method, explicit query and body, the
  result of \<^verbatim>\<open>getRequestSign\<close> (timestamp, canonical path and signature) does not depend
  on the order of the parameters in the path's query string, when their names are
  pairwise distinct: for a path \<open>uri?p\<^sub>1&\<dots>&p\<^sub>n\<close> whose parameters are plain texts with
  pairwise distinct decoded names (at most 1000 of them, the limit of \<^verbatim>\<open>qs.parse\<close>), every
  permutation of the parameters gives the same result.
\<close>
theorem parameter_order_does_not_change_signature:
  assumes "CHR ''?'' \<notin> set uri"
    and "\<forall>p \<in> set parts. CHR ''&'' \<notin> set p \<and> CHR ''?'' \<notin> set p"
    and "distinct (map (\<lambda>p. fst (split_param p)) parts)"
    and "length parts \<le> 1000"
    and "mset parts' = mset parts"
    and "\<forall>p \<in> set parts. plain_query p"
  shows "fst (getRequestSign e s (uri @ ''?'' @ join_with ''&'' parts') meth hdrs query body)
       = fst (getRequestSign e s (uri @ ''?'' @ join_with ''&'' parts) meth hdrs query body)"
  using permuted_path_same_sortedQuery(1) [OF assms(1-5), where query = query]
    permuted_path_same_sortedQuery(2,3) [OF assms(1-5)]
  by (simp add: getRequestSign_def Date_now_def Let_def canonical_url_eq split: option.splits)

lemma example_keys: "fst (split_param ''a=1'') = ''a'' \<and> fst (split_param ''b=2'') = ''b''"
  by code_simp

lemma example_plain: "plain_query ''a=1'' \<and> plain_query ''b=2''"
  by code_simp

text \<open>The paths \<^verbatim>\<open>/x?b=2&a=1\<close> and \<^verbatim>\<open>/x?a=1&b=2\<close>.\<close>

theorem parameter_order_does_not_change_signature_witness:
  "fst (getRequestSign demo_env demo_state ''/x?b=2&a=1'' ''GET'' [] [] (JObj []))
     = fst (getRequestSign demo_env demo_state ''/x?a=1&b=2'' ''GET'' [] [] (JObj []))"
  using parameter_order_does_not_change_signature [where uri = "''/x''"
      and parts = "[''a=1'', ''b=2'']" and parts' = "[''b=2'', ''a=1'']"
      and e = demo_env and s = demo_state and meth = "''GET''" and hdrs = "[]"
      and query = "[]" and body = "JObj []"]
  by (simp add: example_keys example_plain)

text \<open>
  C2, at the call \<^verbatim>\<open>getDeviceInfo\<close> makes. The body passed to \<^verbatim>\<open>getRequestSign\<close> is the
  empty object, which serializes to \<^verbatim>\<open>{}\<close>; the content hash in the string to sign is the
  SHA-256 of these two characters, not the SHA-256 of the empty string, which is what
  \<^verbatim>\<open>getToken\<close> uses for its request without a body.
\<close>

theorem device_info_signs_hash_of_braces:
  "JSON_stringify (JObj []) = Some ''{}''
   \<and> sha256_hex ''{}'' = ''44136fa355b3678a1146ad16f7e8649e94fb4fc21fe77e8310c060f61caaff8a''
   \<and> sha256_hex [] = ''e3b0c44298fc1c149afbf4c8996fb92427ae41e4649b934ca495991b7852b855''
   \<and> (\<exists>h. fst (getRequestSign e s (''/v1.0/devices/'' @ d) ''GET'' [] [] (JObj [])) = Inr h
          \<and> h_sign h = encryptStr
               (accessKey (cfg e) @ token s @ h_t h
                  @ join_with [CHR 0x0A]
                      [''GET'', ''44136fa355b3678a1146ad16f7e8649e94fb4fc21fe77e8310c060f61caaff8a'',
                       [], h_path h])
               (secretKey (cfg e)))"
proof -
  have js: "JSON_stringify (JObj []) = Some ''{}''" by simp
  have "\<exists>h. fst (getRequestSign e s (''/v1.0/devices/'' @ d) ''GET'' [] [] (JObj [])) = Inr h
          \<and> h_sign h = encryptStr
               (accessKey (cfg e) @ token s @ h_t h
                  @ join_with [CHR 0x0A] [''GET'', sha256_hex ''{}'', [], h_path h])
               (secretKey (cfg e))"
    by (simp add: getRequestSign_def Date_now_def Let_def canonical_url_eq)
  then show ?thesis
    using js sha256_hex_empty sha256_hex_braces by simp
qed

end
